(* ===== verification/Prelude.thy ===== *)
theory Prelude imports Main "HOL-Library.Word" "HOL-Library.State_Monad" begin

text \<open>
  Shared material of the development: the names of the machine types, the byte order of the
  target (a little-endian Cortex-A53) and of the network, bounded reads of a C buffer, and the
  two interfaces several components rely on: a fixed-width codec (\<open>codec\<close>) and a machine with an
  invariant (\<open>inv_machine\<close>).
\<close>

unbundle bit_operations_syntax

section \<open>Machine types and collections of rules\<close>

type_synonym u8 = "8 word"
type_synonym u16 = "16 word"
type_synonym u32 = "32 word"

text \<open>\<open>byte_simps\<close>: byte lists and codecs; \<open>io_simps\<close>: the effects of the platform's
  primitives on the trace.\<close>

named_theorems byte_simps "lengths and inverses of the byte codecs"
named_theorems io_simps "execution of the platform primitives"

section \<open>Words as bytes\<close>

text \<open>How the target stores a 16 and a 32 bit value in memory, and how it loads one.\<close>

definition le16 :: "u16 \<Rightarrow> u8 list" where
  "le16 w = [ucast w, ucast (drop_bit 8 w)]"

definition le32 :: "u32 \<Rightarrow> u8 list" where
  "le32 w = [ucast w, ucast (drop_bit 8 w), ucast (drop_bit 16 w), ucast (drop_bit 24 w)]"

definition join16 :: "u8 \<Rightarrow> u8 \<Rightarrow> u16" where
  "join16 a b = ucast a OR push_bit 8 (ucast b)"

definition join32 :: "u8 \<Rightarrow> u8 \<Rightarrow> u8 \<Rightarrow> u8 \<Rightarrow> u32" where
  "join32 a b c d =
     ucast a OR push_bit 8 (ucast b) OR push_bit 16 (ucast c) OR push_bit 24 (ucast d)"

fun un_le16 :: "u8 list \<Rightarrow> u16 option" where
  "un_le16 [a, b] = Some (join16 a b)"
| "un_le16 _ = None"

fun un_le32 :: "u8 list \<Rightarrow> u32 option" where
  "un_le32 [a, b, c, d] = Some (join32 a b c d)"
| "un_le32 _ = None"

text \<open>\<open>htons\<close>, \<open>htonl\<close> and their inverses \<open>ntohs\<close>, \<open>ntohl\<close> reverse the bytes.\<close>

definition htons :: "u16 \<Rightarrow> u16" where
  "htons w = join16 (ucast (drop_bit 8 w)) (ucast w)"

definition htonl :: "u32 \<Rightarrow> u32" where
  "htonl w = join32 (ucast (drop_bit 24 w)) (ucast (drop_bit 16 w)) (ucast (drop_bit 8 w)) (ucast w)"

abbreviation ntohs :: "u16 \<Rightarrow> u16" where "ntohs \<equiv> htons"

abbreviation ntohl :: "u32 \<Rightarrow> u32" where "ntohl \<equiv> htonl"

text \<open>Network order: what a swapped value looks like in memory.\<close>

definition be16 :: "u16 \<Rightarrow> u8 list" where
  "be16 w = rev (le16 w)"

definition be32 :: "u32 \<Rightarrow> u8 list" where
  "be32 w = rev (le32 w)"

definition un_be16 :: "u8 list \<Rightarrow> u16 option" where
  "un_be16 bs = un_le16 (rev bs)"

definition un_be32 :: "u8 list \<Rightarrow> u32 option" where
  "un_be32 bs = un_le32 (rev bs)"

lemma not_bit_u8 [simp]:
  "\<not> bit (a :: u8) (8 + n)" "\<not> bit (a :: u8) (16 + n)" "\<not> bit (a :: u8) (24 + n)"
  by (auto dest!: bit_imp_le_length)

lemma ucast8_join16 [simp]:
  "ucast (join16 a b) = a" "ucast (drop_bit 8 (join16 a b)) = b"
  unfolding join16_def by (auto intro!: bit_word_eqI simp: bit_simps)

lemma ucast8_join32 [simp]:
  "ucast (join32 a b c d) = a" "ucast (drop_bit 8 (join32 a b c d)) = b"
  "ucast (drop_bit 16 (join32 a b c d)) = c" "ucast (drop_bit 24 (join32 a b c d)) = d"
  unfolding join32_def by (auto intro!: bit_word_eqI simp: bit_simps)

text \<open>A bit of a joined word is the bit of the byte it falls into.\<close>

lemma bit_join16: "bit (join16 a b) n \<longleftrightarrow> (if n < 8 then bit a n else n < 16 \<and> bit b (n - 8))"
  unfolding join16_def by (auto simp: bit_simps dest: bit_imp_le_length)

lemma bit_join32: "bit (join32 a b c d) n \<longleftrightarrow>
    (if n < 8 then bit a n else if n < 16 then bit b (n - 8)
     else if n < 24 then bit c (n - 16) else n < 32 \<and> bit d (n - 24))"
proof -
  have u8: "bit (x :: u8) k \<Longrightarrow> k < 8" for x k
    by (auto dest: bit_imp_le_length)
  show ?thesis
    unfolding join32_def using u8[of a n] u8[of b "n - 8"] u8[of c "n - 16"] u8[of d "n - 24"]
    by (auto simp: bit_simps)
qed

lemma join16_bytes [simp]: "join16 (ucast w) (ucast (drop_bit 8 w)) = w"
  by (rule bit_word_eqI) (auto simp: bit_join16 bit_simps)

lemma join32_bytes [simp]:
  "join32 (ucast w) (ucast (drop_bit 8 w)) (ucast (drop_bit 16 w)) (ucast (drop_bit 24 w)) = w"
  by (rule bit_word_eqI) (auto simp: bit_join32 bit_simps)

text \<open>The byte masks the code uses, bit by bit (the simplifier reads a bit of a word numeral off
  the integer).\<close>

lemma bit_byte_masks:
  "bit (0xFF :: int) n \<longleftrightarrow> n < 8" "bit (0xFFFF :: int) n \<longleftrightarrow> n < 16"
  "bit (0xFF00 :: int) n \<longleftrightarrow> 8 \<le> n \<and> n < 16"
proof -
  have m: "(0xFF :: int) = mask 8" "(0xFFFF :: int) = mask 16" "(0xFF00 :: int) = push_bit 8 (mask 8)"
    by (simp_all add: mask_eq_exp_minus_1)
  show "bit (0xFF :: int) n \<longleftrightarrow> n < 8" "bit (0xFFFF :: int) n \<longleftrightarrow> n < 16"
    by (simp_all only: m bit_simps) auto
  show "bit (0xFF00 :: int) n \<longleftrightarrow> 8 \<le> n \<and> n < 16"
    by (simp only: m bit_simps) auto
qed

lemma htons_htons [simp]: "htons (htons w) = w"
  by (simp add: htons_def)

lemma htonl_htonl [simp]: "htonl (htonl w) = w"
  by (simp add: htonl_def)

lemma le16_htons [byte_simps]: "le16 (htons w) = be16 w"
  by (simp add: le16_def be16_def htons_def)

lemma le32_htonl [byte_simps]: "le32 (htonl w) = be32 w"
  by (simp add: le32_def be32_def htonl_def)

lemma length_bytes [simp, byte_simps]:
  "length (le16 h) = 2" "length (le32 w) = 4" "length (be16 h) = 2" "length (be32 w) = 4"
  by (simp_all add: le16_def le32_def be16_def be32_def)

section \<open>Interface: a prefix code\<close>

text \<open>
  Values written one after the other into a byte stream can be told apart: no encoding is empty
  and none is a prefix of a different one's continuation. \<open>ok\<close> says which values the code is for.
\<close>

locale prefix_code =
  fixes enc :: "'a \<Rightarrow> u8 list" and ok :: "'a \<Rightarrow> bool"
  assumes enc_nonempty: "ok x \<Longrightarrow> enc x \<noteq> []"
    and enc_prefix_free: "ok x \<Longrightarrow> ok y \<Longrightarrow> enc x @ r = enc y @ s \<Longrightarrow> x = y \<and> r = s"
begin

lemma stream_inject:
  assumes "list_all ok xs" "list_all ok ys" "concat (map enc xs) = concat (map enc ys)"
  shows "xs = ys"
  using assms
proof (induction xs arbitrary: ys)
  case Nil
  then show ?case by (cases ys) (auto simp: enc_nonempty)
next
  case (Cons x xs)
  then obtain y ys' where ys: "ys = y # ys'"
    by (cases ys) (auto simp: enc_nonempty)
  with Cons.prems have "x = y \<and> concat (map enc xs) = concat (map enc ys')"
    by (intro enc_prefix_free) simp_all
  with Cons ys show ?case by simp
qed

end

section \<open>Interface: a fixed-width codec\<close>

text \<open>
  A codec writes a value as exactly \<open>width\<close> bytes and reads back what it wrote, and nothing else
  reads as that value. Message layers and the EEPROM code rely on the laws only.
\<close>

locale codec =
  fixes enc :: "'a \<Rightarrow> u8 list" and dec :: "u8 list \<Rightarrow> 'a option" and width :: nat
  assumes width_pos: "0 < width"
    and enc_length: "length (enc x) = width"
    and dec_enc: "dec (enc x) = Some x"
    and dec_only: "dec bs = Some x \<Longrightarrow> bs = enc x"
begin

lemma enc_inject: "enc x = enc y \<longleftrightarrow> x = y"
  using dec_enc by (metis option.inject)

lemma enc_append_inject: "enc x @ r = enc y @ s \<longleftrightarrow> x = y \<and> r = s"
  by (simp add: enc_length enc_inject)

lemma dec_take: "dec (take width (enc x @ r)) = Some x"
  by (simp add: enc_length dec_enc)

lemma drop_enc: "drop width (enc x @ r) = r"
  by (simp add: enc_length)

lemma dec_length: "dec bs = Some x \<Longrightarrow> length bs = width"
  using dec_only enc_length by blast

lemma length_concat_enc: "length (concat (map enc xs)) = width * length xs"
  by (induction xs) (simp_all add: enc_length)

text \<open>In an array of values, the element with index \<open>i\<close> is at byte offset \<open>width * i\<close>.\<close>

lemma array_element:
  "i < length xs \<Longrightarrow> dec (take width (drop (width * i) (concat (map enc xs)))) = Some (xs ! i)"
proof (induction xs arbitrary: i)
  case Nil
  then show ?case by simp
next
  case (Cons x xs)
  then show ?case
    by (cases i) (simp_all add: enc_length dec_enc)
qed

end

text \<open>A fixed-width codec is a prefix code for every value.\<close>

sublocale codec \<subseteq> stream: prefix_code enc "\<lambda>_. True"
  using width_pos by unfold_locales (auto simp: enc_append_inject simp flip: length_greater_0_conv simp: enc_length)

lemma un_le16_only: "un_le16 bs = Some w \<Longrightarrow> bs = le16 w"
  by (induction bs rule: un_le16.induct) (auto simp: le16_def)

lemma un_le32_only: "un_le32 bs = Some w \<Longrightarrow> bs = le32 w"
  by (induction bs rule: un_le32.induct) (auto simp: le32_def)

interpretation le16: codec le16 un_le16 2
  by unfold_locales (simp_all add: le16_def un_le16_only[unfolded le16_def])

interpretation le32: codec le32 un_le32 4
  by unfold_locales (simp_all add: le32_def un_le32_only[unfolded le32_def])

interpretation be16: codec be16 un_be16 2
proof unfold_locales
  show "un_be16 bs = Some x \<Longrightarrow> bs = be16 x" for bs x
    using un_le16_only by (simp add: un_be16_def be16_def rev_swap)
qed (simp_all add: un_be16_def be16_def le16.dec_enc)

interpretation be32: codec be32 un_be32 4
proof unfold_locales
  show "un_be32 bs = Some x \<Longrightarrow> bs = be32 x" for bs x
    using un_le32_only by (simp add: un_be32_def be32_def rev_swap)
qed (simp_all add: un_be32_def be32_def le32.dec_enc)

lemmas byte_codecs = le16.dec_enc le32.dec_enc be16.dec_enc be32.dec_enc

section \<open>Buffers\<close>

text \<open>
  A C buffer is the list of its bytes. A load outside the list is \<open>None\<close>: in C it is undefined,
  so no result is made up for it.
\<close>

definition ld :: "nat \<Rightarrow> u8 list \<Rightarrow> nat \<Rightarrow> u8 list option" where
  "ld n buf off = (if off + n \<le> length buf then Some (take n (drop off buf)) else None)"

definition ld16 :: "u8 list \<Rightarrow> nat \<Rightarrow> u16 option" where
  "ld16 buf off = Option.bind (ld 2 buf off) un_le16"

definition ld32 :: "u8 list \<Rightarrow> nat \<Rightarrow> u32 option" where
  "ld32 buf off = Option.bind (ld 4 buf off) un_le32"

text \<open>Storing \<open>bs\<close> at the start of a buffer: \<open>None\<close> when it would run past its end.\<close>

definition fill :: "u8 list \<Rightarrow> u8 list \<Rightarrow> u8 list option" where
  "fill buf bs = (if length bs \<le> length buf then Some (bs @ drop (length bs) buf) else None)"

lemma fill_length: "fill buf bs = Some buf' \<Longrightarrow> length buf' = length buf"
  by (auto simp: fill_def split: if_splits)

lemma un_le32_Some: "length bs = 4 \<Longrightarrow> \<exists>w. un_le32 bs = Some w"
  by (cases bs rule: un_le32.cases) simp_all

lemma un_le16_Some: "length bs = 2 \<Longrightarrow> \<exists>w. un_le16 bs = Some w"
  by (cases bs rule: un_le16.cases) simp_all

lemma ld32_Some_iff: "(\<exists>w. ld32 buf off = Some w) \<longleftrightarrow> off + 4 \<le> length buf"
  using un_le32_Some[of "take 4 (drop off buf)"] by (auto simp: ld32_def ld_def)

lemma ld16_Some_iff: "(\<exists>w. ld16 buf off = Some w) \<longleftrightarrow> off + 2 \<le> length buf"
  using un_le16_Some[of "take 2 (drop off buf)"] by (auto simp: ld16_def ld_def)

lemma ld32_be32: "ld32 (be32 w @ r) 0 = Some (htonl w)"
  by (simp add: ld32_def ld_def flip: le32_htonl) (simp add: le32.dec_enc)

lemma ld32_drop: "length p = off \<Longrightarrow> ld32 (p @ r) off = ld32 r 0"
  by (simp add: ld32_def ld_def)

lemma ld16_be16: "ld16 (be16 w @ r) 0 = Some (htons w)"
  by (simp add: ld16_def ld_def flip: le16_htons) (simp add: le16.dec_enc)

lemma ld16_drop: "length p = off \<Longrightarrow> ld16 (p @ r) off = ld16 r 0"
  by (simp add: ld16_def ld_def)

section \<open>Strings\<close>

text \<open>A string literal of the source as its bytes, without the terminating zero.\<close>

definition ascii :: "string \<Rightarrow> u8 list" where
  "ascii s = map of_char s"

lemma length_ascii [simp]: "length (ascii s) = length s"
  by (simp add: ascii_def)

section \<open>Interface: a machine with an invariant\<close>

text \<open>
  A machine is a set of start states and a step relation. The provider shows that its invariant
  holds at the start and is kept by every step; its clients get the invariant for every state a
  run can reach.
\<close>

locale inv_machine =
  fixes init :: "'s \<Rightarrow> bool" and step :: "'s \<Rightarrow> 's \<Rightarrow> bool" and inv :: "'s \<Rightarrow> bool"
  assumes inv_init: "init s \<Longrightarrow> inv s"
    and inv_step: "step s t \<Longrightarrow> inv s \<Longrightarrow> inv t"
begin

lemma inv_steps: "step\<^sup>*\<^sup>* s t \<Longrightarrow> inv s \<Longrightarrow> inv t"
  by (induction rule: rtranclp_induct) (auto intro: inv_step)

lemma inv_reachable: "init s \<Longrightarrow> step\<^sup>*\<^sup>* s t \<Longrightarrow> inv t"
  using inv_steps inv_init by blast

lemma no_bad_state: "init s \<Longrightarrow> step\<^sup>*\<^sup>* s t \<Longrightarrow> (\<And>u. inv u \<Longrightarrow> \<not> bad u) \<Longrightarrow> \<not> bad t"
  using inv_reachable by blast

end

end
