(* ===== verification/Platform.thy ===== *)
theory Platform imports Prelude begin

text \<open>
  What the firmware touches outside its own memory. The PL registers (\<^verbatim>\<open>pl_regs.h\<close>) and the
  registers of the ADC DMA core are ports; every access appends an event to the trace of the
  world, and what a read returns is decided by the hardware, an environment function of the whole
  trace so far and the only source of input. Console output is not modelled.
\<close>

section \<open>Ports\<close>

text \<open>\<^verbatim>\<open>pl_regs.h\<close>: the registers of the AXI DMA core, then the "PL AXI4 Bus Registers".\<close>

abbreviation (input) S2MM_DMACR :: nat where "S2MM_DMACR \<equiv> 0x30"
abbreviation (input) S2MM_DMASR :: nat where "S2MM_DMASR \<equiv> 0x34"
abbreviation (input) S2MM_DA :: nat where "S2MM_DA \<equiv> 0x48"
abbreviation (input) S2MM_LEN :: nat where "S2MM_LEN \<equiv> 0x58"

abbreviation (input) MOD_ID_NUM :: nat where "MOD_ID_NUM \<equiv> 0x0"
abbreviation (input) MOD_ID_VER :: nat where "MOD_ID_VER \<equiv> 0x4"
abbreviation (input) PROJ_ID_NUM :: nat where "PROJ_ID_NUM \<equiv> 0x10"
abbreviation (input) PROJ_ID_VER :: nat where "PROJ_ID_VER \<equiv> 0x14"
abbreviation (input) GIT_SHASUM :: nat where "GIT_SHASUM \<equiv> 0x18"
abbreviation (input) COMPILE_TIMESTAMP :: nat where "COMPILE_TIMESTAMP \<equiv> 0x1c"
abbreviation (input) ADC_IDLYWVAL_REG :: nat where "ADC_IDLYWVAL_REG \<equiv> 0x20"
abbreviation (input) ADC_IDLYSTR_REG :: nat where "ADC_IDLYSTR_REG \<equiv> 0x24"
abbreviation (input) ADC_IDLYCHARVAL_REG :: nat where "ADC_IDLYCHARVAL_REG \<equiv> 0x28"
abbreviation (input) ADC_IDLYCHBRVAL_REG :: nat where "ADC_IDLYCHBRVAL_REG \<equiv> 0x2c"
abbreviation (input) ADC_IDLYCHCRVAL_REG :: nat where "ADC_IDLYCHCRVAL_REG \<equiv> 0x30"
abbreviation (input) ADC_IDLYCHDRVAL_REG :: nat where "ADC_IDLYCHDRVAL_REG \<equiv> 0x34"
abbreviation (input) ADC_FCOMMCM_REG :: nat where "ADC_FCOMMCM_REG \<equiv> 0x38"
abbreviation (input) PLL_LOCKED_REG :: nat where "PLL_LOCKED_REG \<equiv> 0x3c"
abbreviation (input) AD9510_REG :: nat where "AD9510_REG \<equiv> 0x40"
abbreviation (input) RF_DSA_REG :: nat where "RF_DSA_REG \<equiv> 0x44"
abbreviation (input) ADC_SPI_REG :: nat where "ADC_SPI_REG \<equiv> 0x48"
abbreviation (input) ADC_RAWCHA_REG :: nat where "ADC_RAWCHA_REG \<equiv> 0x50"
abbreviation (input) ADC_RAWCHB_REG :: nat where "ADC_RAWCHB_REG \<equiv> 0x54"
abbreviation (input) ADC_RAWCHC_REG :: nat where "ADC_RAWCHC_REG \<equiv> 0x58"
abbreviation (input) ADC_RAWCHD_REG :: nat where "ADC_RAWCHD_REG \<equiv> 0x5c"
abbreviation (input) THERM_SPI_REG :: nat where "THERM_SPI_REG \<equiv> 0x60"
abbreviation (input) THERM_SEL_REG :: nat where "THERM_SEL_REG \<equiv> 0x64"
abbreviation (input) DDC_LPFILT_SEL_REG :: nat where "DDC_LPFILT_SEL_REG \<equiv> 0x68"
abbreviation (input) IOC_ACCESS_REG :: nat where "IOC_ACCESS_REG \<equiv> 0x70"
abbreviation (input) KX_REG :: nat where "KX_REG \<equiv> 0x90"
abbreviation (input) KY_REG :: nat where "KY_REG \<equiv> 0x94"
abbreviation (input) CHA_GAIN_REG :: nat where "CHA_GAIN_REG \<equiv> 0x98"
abbreviation (input) CHB_GAIN_REG :: nat where "CHB_GAIN_REG \<equiv> 0x9c"
abbreviation (input) CHC_GAIN_REG :: nat where "CHC_GAIN_REG \<equiv> 0xa0"
abbreviation (input) CHD_GAIN_REG :: nat where "CHD_GAIN_REG \<equiv> 0xa4"
abbreviation (input) BBA_XOFF_REG :: nat where "BBA_XOFF_REG \<equiv> 0xa8"
abbreviation (input) BBA_YOFF_REG :: nat where "BBA_YOFF_REG \<equiv> 0xac"
abbreviation (input) TBT_GATEDLY_REG :: nat where "TBT_GATEDLY_REG \<equiv> 0xb0"
abbreviation (input) TBT_GATEWID_REG :: nat where "TBT_GATEWID_REG \<equiv> 0xb4"
abbreviation (input) CLK_TRIG_SRC :: nat where "CLK_TRIG_SRC \<equiv> 0xb8"
abbreviation (input) EVR_RST_REG :: nat where "EVR_RST_REG \<equiv> 0xbc"
abbreviation (input) SA_TRIGNUM_REG :: nat where "SA_TRIGNUM_REG \<equiv> 0xc0"
abbreviation (input) SA_CHA_REG :: nat where "SA_CHA_REG \<equiv> 0xc4"
abbreviation (input) SA_CHB_REG :: nat where "SA_CHB_REG \<equiv> 0xc8"
abbreviation (input) SA_CHC_REG :: nat where "SA_CHC_REG \<equiv> 0xcc"
abbreviation (input) SA_CHD_REG :: nat where "SA_CHD_REG \<equiv> 0xd0"
abbreviation (input) SA_XPOS_REG :: nat where "SA_XPOS_REG \<equiv> 0xd4"
abbreviation (input) SA_YPOS_REG :: nat where "SA_YPOS_REG \<equiv> 0xd8"
abbreviation (input) SA_SUM_REG :: nat where "SA_SUM_REG \<equiv> 0xdc"
abbreviation (input) TRIGTOBEAM_DLY_REG :: nat where "TRIGTOBEAM_DLY_REG \<equiv> 0xf0"
abbreviation (input) TRIGTOBEAM_THRESH_REG :: nat where "TRIGTOBEAM_THRESH_REG \<equiv> 0xf4"
abbreviation (input) DMA_SOFTTRIG_REG :: nat where "DMA_SOFTTRIG_REG \<equiv> 0x100"
abbreviation (input) DMA_FIFORST_REG :: nat where "DMA_FIFORST_REG \<equiv> 0x104"
abbreviation (input) DMA_ADCENABLE_REG :: nat where "DMA_ADCENABLE_REG \<equiv> 0x108"
abbreviation (input) DMA_ADCBURSTLEN_REG :: nat where "DMA_ADCBURSTLEN_REG \<equiv> 0x10c"
abbreviation (input) DMA_TBTENABLE_REG :: nat where "DMA_TBTENABLE_REG \<equiv> 0x110"
abbreviation (input) DMA_TBTBURSTLEN_REG :: nat where "DMA_TBTBURSTLEN_REG \<equiv> 0x114"
abbreviation (input) DMA_FAENABLE_REG :: nat where "DMA_FAENABLE_REG \<equiv> 0x118"
abbreviation (input) DMA_FABURSTLEN_REG :: nat where "DMA_FABURSTLEN_REG \<equiv> 0x11c"
abbreviation (input) DMA_TESTDATENEN_REG :: nat where "DMA_TESTDATENEN_REG \<equiv> 0x120"
abbreviation (input) DMA_TRIGSRC_REG :: nat where "DMA_TRIGSRC_REG \<equiv> 0x124"
abbreviation (input) DMA_TRIGCNT_REG :: nat where "DMA_TRIGCNT_REG \<equiv> 0x128"
abbreviation (input) DMA_STATUS_REG :: nat where "DMA_STATUS_REG \<equiv> 0x12c"
abbreviation (input) DMA_TXTOIOC_DONE_REG :: nat where "DMA_TXTOIOC_DONE_REG \<equiv> 0x130"
abbreviation (input) FP_LEDS_REG :: nat where "FP_LEDS_REG \<equiv> 0x140"
abbreviation (input) EVR_TS_NS_REG :: nat where "EVR_TS_NS_REG \<equiv> 0x150"
abbreviation (input) EVR_TS_S_REG :: nat where "EVR_TS_S_REG \<equiv> 0x154"
abbreviation (input) EVR_TS_NS_LAT_REG :: nat where "EVR_TS_NS_LAT_REG \<equiv> 0x158"
abbreviation (input) EVR_TS_S_LAT_REG :: nat where "EVR_TS_S_LAT_REG \<equiv> 0x15c"
abbreviation (input) EVR_DMA_TRIGNUM_REG :: nat where "EVR_DMA_TRIGNUM_REG \<equiv> 0x160"
abbreviation (input) DMA_TRIG_DLY_REG :: nat where "DMA_TRIG_DLY_REG \<equiv> 0x164"
abbreviation (input) EVENT_SRC_SEL_REG :: nat where "EVENT_SRC_SEL_REG \<equiv> 0x168"
abbreviation (input) TEST_TRIG_DLY_REG :: nat where "TEST_TRIG_DLY_REG \<equiv> 0x170"
abbreviation (input) TEST_TRIG_WID_REG :: nat where "TEST_TRIG_WID_REG \<equiv> 0x174"
abbreviation (input) ADCFIFO_STREAMENB_REG :: nat where "ADCFIFO_STREAMENB_REG \<equiv> 0x200"
abbreviation (input) ADCFIFO_RST_REG :: nat where "ADCFIFO_RST_REG \<equiv> 0x204"
abbreviation (input) ADCFIFO_DATA_REG :: nat where "ADCFIFO_DATA_REG \<equiv> 0x208"
abbreviation (input) ADCFIFO_CNT_REG :: nat where "ADCFIFO_CNT_REG \<equiv> 0x20c"
abbreviation (input) TBTFIFO_STREAMENB_REG :: nat where "TBTFIFO_STREAMENB_REG \<equiv> 0x210"
abbreviation (input) TBTFIFO_RST_REG :: nat where "TBTFIFO_RST_REG \<equiv> 0x214"
abbreviation (input) TBTFIFO_DATA_REG :: nat where "TBTFIFO_DATA_REG \<equiv> 0x218"
abbreviation (input) TBTFIFO_CNT_REG :: nat where "TBTFIFO_CNT_REG \<equiv> 0x21c"
abbreviation (input) SWRFFE_ENB_REG :: nat where "SWRFFE_ENB_REG \<equiv> 0x250"
abbreviation (input) SWRFFE_TRIGDLY_REG :: nat where "SWRFFE_TRIGDLY_REG \<equiv> 0x254"
abbreviation (input) SWRFFE_DEMUXDLY_REG :: nat where "SWRFFE_DEMUXDLY_REG \<equiv> 0x258"
abbreviation (input) SWRFFE_ADCDMASEL_REG :: nat where "SWRFFE_ADCDMASEL_REG \<equiv> 0x25c"
abbreviation (input) ADC_FIFOWREN_REG :: nat where "ADC_FIFOWREN_REG \<equiv> 0x8"
abbreviation (input) FINE_TRIG_DLY_REG :: nat where "FINE_TRIG_DLY_REG \<equiv> 0x4e"

text \<open>
  The code writes an address as \<open>XPAR_M_AXI_BASEADDR + KX_REG\<close>: the base names the slave, the
  offset the register. The bases are constants of the generated \<^verbatim>\<open>xparameters.h\<close>; a port keeps the
  slave symbolic.
\<close>

datatype port = PL nat | AXI_DMA_ADC nat

definition all_pl_regs :: "nat list" where
  "all_pl_regs = [
    MOD_ID_NUM, MOD_ID_VER, PROJ_ID_NUM, PROJ_ID_VER, GIT_SHASUM, COMPILE_TIMESTAMP,
    ADC_IDLYWVAL_REG, ADC_IDLYSTR_REG, ADC_IDLYCHARVAL_REG, ADC_IDLYCHBRVAL_REG,
    ADC_IDLYCHCRVAL_REG, ADC_IDLYCHDRVAL_REG, ADC_FCOMMCM_REG, PLL_LOCKED_REG, AD9510_REG,
    RF_DSA_REG, ADC_SPI_REG, ADC_RAWCHA_REG, ADC_RAWCHB_REG, ADC_RAWCHC_REG, ADC_RAWCHD_REG,
    THERM_SPI_REG, THERM_SEL_REG, DDC_LPFILT_SEL_REG, IOC_ACCESS_REG, KX_REG, KY_REG,
    CHA_GAIN_REG, CHB_GAIN_REG, CHC_GAIN_REG, CHD_GAIN_REG, BBA_XOFF_REG, BBA_YOFF_REG,
    TBT_GATEDLY_REG, TBT_GATEWID_REG, CLK_TRIG_SRC, EVR_RST_REG, SA_TRIGNUM_REG, SA_CHA_REG,
    SA_CHB_REG, SA_CHC_REG, SA_CHD_REG, SA_XPOS_REG, SA_YPOS_REG, SA_SUM_REG,
    TRIGTOBEAM_DLY_REG, TRIGTOBEAM_THRESH_REG, DMA_SOFTTRIG_REG, DMA_FIFORST_REG,
    DMA_ADCENABLE_REG, DMA_ADCBURSTLEN_REG, DMA_TBTENABLE_REG, DMA_TBTBURSTLEN_REG,
    DMA_FAENABLE_REG, DMA_FABURSTLEN_REG, DMA_TESTDATENEN_REG, DMA_TRIGSRC_REG,
    DMA_TRIGCNT_REG, DMA_STATUS_REG, DMA_TXTOIOC_DONE_REG, FP_LEDS_REG, EVR_TS_NS_REG,
    EVR_TS_S_REG, EVR_TS_NS_LAT_REG, EVR_TS_S_LAT_REG, EVR_DMA_TRIGNUM_REG, DMA_TRIG_DLY_REG,
    EVENT_SRC_SEL_REG, TEST_TRIG_DLY_REG, TEST_TRIG_WID_REG, ADCFIFO_STREAMENB_REG,
    ADCFIFO_RST_REG, ADCFIFO_DATA_REG, ADCFIFO_CNT_REG, TBTFIFO_STREAMENB_REG, TBTFIFO_RST_REG,
    TBTFIFO_DATA_REG, TBTFIFO_CNT_REG, SWRFFE_ENB_REG, SWRFFE_TRIGDLY_REG, SWRFFE_DEMUXDLY_REG,
    SWRFFE_ADCDMASEL_REG, ADC_FIFOWREN_REG, FINE_TRIG_DLY_REG]"

text \<open>
  The address map the bus really has, \<^verbatim>\<open>src/hw/rdl/pl_regs.rdl\<close>: the offset of each register and
  whether software may write it (\<^verbatim>\<open>default sw = rw\<close>) or only read it.
\<close>

datatype sw_access = SW_R | SW_RW

definition rdl_map :: "(nat \<times> sw_access) list" where
  "rdl_map = [
    (0x0, SW_R), (0x4, SW_R), (0x10, SW_R), (0x14, SW_R), (0x18, SW_R), (0x1c, SW_R),
    (0x20, SW_RW), (0x24, SW_RW), (0x28, SW_R), (0x2c, SW_R), (0x30, SW_R), (0x34, SW_R),
    (0x38, SW_RW), (0x3c, SW_R), (0x40, SW_RW), (0x44, SW_RW), (0x48, SW_RW), (0x50, SW_R),
    (0x54, SW_R), (0x58, SW_R), (0x5c, SW_R), (0x60, SW_RW), (0x64, SW_RW), (0x68, SW_RW),
    (0x70, SW_RW), (0x90, SW_RW), (0x94, SW_RW), (0x98, SW_RW), (0x9c, SW_RW), (0xa0, SW_RW),
    (0xa4, SW_RW), (0xa8, SW_RW), (0xac, SW_RW), (0xb0, SW_RW), (0xb4, SW_RW), (0xb8, SW_RW),
    (0xbc, SW_RW), (0xc0, SW_R), (0xc4, SW_R), (0xc8, SW_R), (0xcc, SW_R), (0xd0, SW_R),
    (0xd4, SW_R), (0xd8, SW_R), (0xdc, SW_R), (0xf0, SW_RW), (0xf4, SW_RW), (0x100, SW_RW),
    (0x104, SW_RW), (0x108, SW_RW), (0x10c, SW_RW), (0x110, SW_RW), (0x114, SW_RW),
    (0x118, SW_RW), (0x11c, SW_RW), (0x120, SW_RW), (0x124, SW_RW), (0x128, SW_R),
    (0x12c, SW_R), (0x130, SW_RW), (0x140, SW_RW), (0x150, SW_R), (0x154, SW_R), (0x158, SW_R),
    (0x15c, SW_R), (0x160, SW_RW), (0x164, SW_RW), (0x168, SW_RW), (0x170, SW_RW),
    (0x174, SW_RW), (0x200, SW_RW), (0x204, SW_RW), (0x208, SW_R), (0x20c, SW_R),
    (0x210, SW_RW), (0x214, SW_RW), (0x218, SW_R), (0x21c, SW_R), (0x250, SW_RW),
    (0x254, SW_RW), (0x258, SW_RW), (0x25c, SW_RW)]"

text \<open>A write is legal when it is aligned and the map has a register there that software may
  write; the four registers of the DMA core are writable words.\<close>

fun legal_write :: "port \<Rightarrow> bool" where
  "legal_write (PL r) \<longleftrightarrow> r mod 4 = 0 \<and> map_of rdl_map r = Some SW_RW"
| "legal_write (AXI_DMA_ADC r) \<longleftrightarrow> r \<in> {S2MM_DMACR, S2MM_DMASR, S2MM_DA, S2MM_LEN}"

section \<open>Events and the world\<close>

datatype event =
    Wr32 port u32                   \<comment> \<open>\<open>Xil_Out32\<close>\<close>
  | Rd32 port u32                   \<comment> \<open>\<open>Xil_In32\<close>, with the value it returned\<close>
  | Rd16 port u16                   \<comment> \<open>\<open>Xil_In16\<close>\<close>
  | Usleep nat                      \<comment> \<open>\<open>usleep\<close>, microseconds\<close>
  | Delay nat                       \<comment> \<open>\<open>vTaskDelay(pdMS_TO_TICKS(n))\<close>, milliseconds\<close>
  | I2cTx u8 "u8 list" int          \<comment> \<open>\<open>XIicPs_MasterSendPolled\<close>: address, bytes, status\<close>
  | I2cRx u8 "u8 list" int          \<comment> \<open>\<open>XIicPs_MasterRecvPolled\<close>: address, bytes, status\<close>
  | PscSend u16 "u8 list"           \<comment> \<open>a call of \<open>psc_send\<close>: message number, body\<close>

text \<open>
  The environment: what each access returns, given everything that happened before. An I2C
  transfer waits until the bus is free (\<open>XIicPs_BusIsBusy\<close>) and then returns the driver's status;
  a reception delivers its bytes into the caller's buffer.
\<close>

record hw =
  hw_in32 :: "event list \<Rightarrow> port \<Rightarrow> u32"
  hw_in16 :: "event list \<Rightarrow> port \<Rightarrow> u16"
  hw_i2c_tx :: "event list \<Rightarrow> u8 \<Rightarrow> u8 list \<Rightarrow> int"
  hw_i2c_rx :: "event list \<Rightarrow> u8 \<Rightarrow> nat \<Rightarrow> int \<times> u8 list"
  hw_ddr :: "event list \<Rightarrow> nat \<Rightarrow> u32"

record world =
  env :: hw
  trace :: "event list"

type_synonym 'a io = "(world, 'a) state"

abbreviation ret :: "'a \<Rightarrow> 'a io" where "ret \<equiv> State_Monad.return"

definition log_ev :: "event \<Rightarrow> world \<Rightarrow> world" where
  "log_ev e w = w\<lparr>trace := trace w @ [e]\<rparr>"

definition emit :: "event \<Rightarrow> unit io" where
  "emit e = State (\<lambda>w. ((), log_ev e w))"

definition Xil_Out32 :: "port \<Rightarrow> u32 \<Rightarrow> unit io" where
  "Xil_Out32 p v = emit (Wr32 p v)"

definition Xil_In32 :: "port \<Rightarrow> u32 io" where
  "Xil_In32 p = State (\<lambda>w. let v = hw_in32 (env w) (trace w) p in (v, log_ev (Rd32 p v) w))"

definition Xil_In16 :: "port \<Rightarrow> u16 io" where
  "Xil_In16 p = State (\<lambda>w. let v = hw_in16 (env w) (trace w) p in (v, log_ev (Rd16 p v) w))"

definition usleep :: "nat \<Rightarrow> unit io" where
  "usleep us = emit (Usleep us)"

definition vTaskDelay :: "nat \<Rightarrow> unit io" where
  "vTaskDelay ms = emit (Delay ms)"

text \<open>I2C transfers, in polled mode: the status of a transmission; status and content of the caller's
  buffer after a reception of \<open>n\<close> bytes.\<close>

definition fit :: "nat \<Rightarrow> u8 list \<Rightarrow> u8 list" where
  "fit n bs = take n (bs @ replicate n 0)"

definition XIicPs_MasterSendPolled :: "u8 \<Rightarrow> u8 list \<Rightarrow> int io" where
  "XIicPs_MasterSendPolled a bs = State (\<lambda>w. let st = hw_i2c_tx (env w) (trace w) a bs
     in (st, log_ev (I2cTx a bs st) w))"

definition XIicPs_MasterRecvPolled :: "u8 \<Rightarrow> nat \<Rightarrow> (int \<times> u8 list) io" where
  "XIicPs_MasterRecvPolled a n = State (\<lambda>w. case hw_i2c_rx (env w) (trace w) a n of
     (st, bs) \<Rightarrow> ((st, fit n bs), log_ev (I2cRx a (fit n bs) st) w))"

text \<open>The threads hand a message to the PSC server, which is modelled in \<^verbatim>\<open>Listener\<close>; and the DMA
  buffer as the CPU sees it once its cache is invalidated.\<close>

definition psc_send_msg :: "u16 \<Rightarrow> u8 list \<Rightarrow> unit io" where
  "psc_send_msg msgid msg = emit (PscSend msgid msg)"

definition read_ddr :: "(nat \<Rightarrow> u32) io" where
  "read_ddr = State (\<lambda>w. (hw_ddr (env w) (trace w), w))"

text \<open>A loop over a fixed list of values, each iteration an action.\<close>

fun for_each :: "'a list \<Rightarrow> ('a \<Rightarrow> unit io) \<Rightarrow> unit io" where
  "for_each [] f = ret ()"
| "for_each (x # xs) f = do { f x; for_each xs f }"

lemma env_log_ev [simp]: "env (log_ev e w) = env w"
  by (simp add: log_ev_def)

lemma trace_log_ev [simp]: "trace (log_ev e w) = trace w @ [e]"
  by (simp add: log_ev_def)

lemma run_emit [io_simps]: "run_state (emit e) w = ((), log_ev e w)"
  by (simp add: emit_def)

lemma run_out32 [io_simps]: "run_state (Xil_Out32 p v) w = ((), log_ev (Wr32 p v) w)"
  by (simp add: Xil_Out32_def run_emit)

lemma run_in32 [io_simps]:
  "run_state (Xil_In32 p) w =
     (hw_in32 (env w) (trace w) p, log_ev (Rd32 p (hw_in32 (env w) (trace w) p)) w)"
  by (simp add: Xil_In32_def Let_def)

lemma run_in16 [io_simps]:
  "run_state (Xil_In16 p) w =
     (hw_in16 (env w) (trace w) p, log_ev (Rd16 p (hw_in16 (env w) (trace w) p)) w)"
  by (simp add: Xil_In16_def Let_def)

lemma run_usleep [io_simps]: "run_state (usleep n) w = ((), log_ev (Usleep n) w)"
  by (simp add: usleep_def run_emit)

lemma run_vTaskDelay [io_simps]: "run_state (vTaskDelay n) w = ((), log_ev (Delay n) w)"
  by (simp add: vTaskDelay_def run_emit)

lemma fit_length [simp]: "length (fit n bs) = n"
  by (simp add: fit_def)

lemma fit_exact: "length bs = n \<Longrightarrow> fit n bs = bs"
  by (simp add: fit_def)

lemma run_send_polled [io_simps]:
  "run_state (XIicPs_MasterSendPolled a bs) w =
     (hw_i2c_tx (env w) (trace w) a bs, log_ev (I2cTx a bs (hw_i2c_tx (env w) (trace w) a bs)) w)"
  by (simp add: XIicPs_MasterSendPolled_def Let_def)

lemma run_recv_polled [io_simps]:
  "run_state (XIicPs_MasterRecvPolled a n) w =
     (let (st, bs) = hw_i2c_rx (env w) (trace w) a n
      in ((st, fit n bs), log_ev (I2cRx a (fit n bs) st) w))"
  by (simp add: XIicPs_MasterRecvPolled_def)

lemma run_psc_send_msg [io_simps]: "run_state (psc_send_msg i b) w = ((), log_ev (PscSend i b) w)"
  by (simp add: psc_send_msg_def run_emit)

lemma run_read_ddr [io_simps]: "run_state read_ddr w = (hw_ddr (env w) (trace w), w)"
  by (simp add: read_ddr_def)

section \<open>Reading the trace\<close>

fun ev_writes :: "event \<Rightarrow> (port \<times> u32) list" where
  "ev_writes (Wr32 p v) = [(p, v)]"
| "ev_writes _ = []"

definition writes :: "event list \<Rightarrow> (port \<times> u32) list" where
  "writes tr = concat (map ev_writes tr)"

definition writes_to :: "port \<Rightarrow> event list \<Rightarrow> u32 list" where
  "writes_to p tr = map snd (filter (\<lambda>(q, v). q = p) (writes tr))"

definition last_write :: "event list \<Rightarrow> port \<rightharpoonup> u32" where
  "last_write tr = map_of (rev (writes tr))"

lemma writes_Nil [simp]: "writes [] = []"
  by (simp add: writes_def)

lemma writes_append [simp]: "writes (a @ b) = writes a @ writes b"
  by (simp add: writes_def)

lemma writes_Cons [simp]: "writes (e # es) = ev_writes e @ writes es"
  by (simp add: writes_def)

lemma writes_to_Nil [simp]: "writes_to p [] = []"
  by (simp add: writes_to_def)

lemma writes_to_append [simp]: "writes_to p (a @ b) = writes_to p a @ writes_to p b"
  by (simp add: writes_to_def)

text \<open>
  Interface: a bank of registers, given by how it is updated and what it holds. The provider is
  the trace itself: a write is appended, and a register holds what was last written to it.
\<close>

locale reg_bank =
  fixes upd :: "'b \<Rightarrow> 'p \<Rightarrow> 'v \<Rightarrow> 'b" and val :: "'b \<Rightarrow> 'p \<Rightarrow> 'v option"
  assumes val_upd: "val (upd b p v) q = (if q = p then Some v else val b q)"
begin

text \<open>A strobe leaves its register at the second value and touches nothing else.\<close>

lemma val_strobe: "val (upd (upd b p v) p u) q = (if q = p then Some u else val b q)"
  by (simp add: val_upd)

lemma val_foldl:
  "val (foldl (\<lambda>b (p, v). upd b p v) b pvs) q =
     (case map_of (rev pvs) q of None \<Rightarrow> val b q | Some v \<Rightarrow> Some v)"
proof (induction pvs rule: rev_induct)
  case Nil
  then show ?case by simp
next
  case (snoc pv pvs)
  then show ?case by (cases pv) (auto simp: val_upd)
qed

lemma val_untouched: "q \<notin> fst ` set pvs \<Longrightarrow> val (foldl (\<lambda>b (p, v). upd b p v) b pvs) q = val b q"
  by (simp add: val_foldl map_of_eq_None_iff split: option.split)
    (metis map_of_SomeD image_eqI fst_conv set_rev)

end

interpretation tr_bank: reg_bank "\<lambda>tr p v. tr @ [Wr32 p v]" last_write
  by unfold_locales (simp add: last_write_def)

text \<open>What a stretch of a run does to a register: the last of its writes there counts.\<close>

lemma last_write_append:
  "last_write (tr @ es) q =
     (case map_of (rev (writes es)) q of None \<Rightarrow> last_write tr q | Some v \<Rightarrow> Some v)"
proof -
  have "last_write (tr @ es) q = last_write (foldl (\<lambda>tr (p, v). tr @ [Wr32 p v]) tr (writes es)) q"
  proof -
    have "writes (foldl (\<lambda>tr (p, v). tr @ [Wr32 p v]) tr ws) = writes tr @ ws" for ws
      by (induction ws arbitrary: tr) auto
    then show ?thesis by (simp add: last_write_def)
  qed
  then show ?thesis by (simp add: tr_bank.val_foldl)
qed

text \<open>
  Hypothesis on the hardware, used where the code reads a setting back: the RDL declares a
  software-writable register as storage, so a read of it returns what was last written.
\<close>

definition stores :: "hw \<Rightarrow> port \<Rightarrow> bool" where
  "stores h p \<longleftrightarrow> (\<forall>tr v. last_write tr p = Some v \<longrightarrow> hw_in32 h tr p = v)"

text \<open>Hardware that does so for every port, with idle I2C devices: an instance for witnesses.\<close>

definition storing_hw :: hw where
  "storing_hw = \<lparr>hw_in32 = (\<lambda>tr p. case last_write tr p of None \<Rightarrow> 0 | Some v \<Rightarrow> v),
     hw_in16 = (\<lambda>_ _. 0), hw_i2c_tx = (\<lambda>_ _ _. 0), hw_i2c_rx = (\<lambda>_ _ n. (0, replicate n 0)),
     hw_ddr = (\<lambda>_ _. 0)\<rparr>"

definition start_world :: "hw \<Rightarrow> world" where
  "start_world h = \<lparr>env = h, trace = []\<rparr>"

lemma stores_storing_hw [simp]: "stores storing_hw p"
  by (simp add: stores_def storing_hw_def)

lemma start_world_simps [simp]: "env (start_world h) = h" "trace (start_world h) = []"
  by (simp_all add: start_world_def)

section \<open>Programs that only add to the trace\<close>

text \<open>
  \<open>runs m w x evs\<close>: started in \<open>w\<close>, the program \<open>m\<close> returns \<open>x\<close>, adds the events \<open>evs\<close> and changes
  nothing else. \<open>appends P m\<close>: whatever the hardware answers, every event \<open>m\<close> adds satisfies \<open>P\<close>.
\<close>

definition appends :: "(event \<Rightarrow> bool) \<Rightarrow> 'a io \<Rightarrow> bool" where
  "appends P m \<longleftrightarrow> (\<forall>w. env (snd (run_state m w)) = env w \<and>
     (\<exists>evs. trace (snd (run_state m w)) = trace w @ evs \<and> list_all P evs))"

lemma appends_ret: "appends P (ret x)"
  by (simp add: appends_def)

lemma appends_bind:
  assumes "appends P m" and "\<And>x. appends P (f x)"
  shows "appends P (m \<bind> f)"
  unfolding appends_def
proof
  fix w
  obtain x v where v: "run_state m w = (x, v)" by fastforce
  obtain y u where u: "run_state (f x) v = (y, u)" by fastforce
  from assms(1) v obtain es where es: "env v = env w" "trace v = trace w @ es" "list_all P es"
    unfolding appends_def by (metis snd_conv)
  from assms(2)[of x] u obtain fs where "env u = env v" "trace u = trace v @ fs" "list_all P fs"
    unfolding appends_def by (metis snd_conv)
  with es v u show "env (snd (run_state (m \<bind> f) w)) = env w \<and>
      (\<exists>evs. trace (snd (run_state (m \<bind> f) w)) = trace w @ evs \<and> list_all P evs)"
    by simp
qed

lemma appends_emit: "P e \<Longrightarrow> appends P (emit e)"
  by (simp add: appends_def run_emit)

lemma appends_out32: "P (Wr32 p v) \<Longrightarrow> appends P (Xil_Out32 p v)"
  by (simp add: Xil_Out32_def appends_emit)

lemma appends_in32: "(\<And>v. P (Rd32 p v)) \<Longrightarrow> appends P (Xil_In32 p)"
  by (simp add: appends_def run_in32)

lemma appends_in16: "(\<And>v. P (Rd16 p v)) \<Longrightarrow> appends P (Xil_In16 p)"
  by (simp add: appends_def run_in16)

lemma appends_usleep: "P (Usleep n) \<Longrightarrow> appends P (usleep n)"
  by (simp add: usleep_def appends_emit)

lemma appends_vTaskDelay: "P (Delay n) \<Longrightarrow> appends P (vTaskDelay n)"
  by (simp add: vTaskDelay_def appends_emit)

lemma appends_send_polled: "(\<And>st. P (I2cTx a bs st)) \<Longrightarrow> appends P (XIicPs_MasterSendPolled a bs)"
  by (simp add: appends_def run_send_polled)

lemma appends_recv_polled: "(\<And>bs st. P (I2cRx a bs st)) \<Longrightarrow> appends P (XIicPs_MasterRecvPolled a n)"
  by (simp add: appends_def run_recv_polled split: prod.split)

lemma appends_psc_send_msg: "P (PscSend i b) \<Longrightarrow> appends P (psc_send_msg i b)"
  by (simp add: psc_send_msg_def appends_emit)

lemma appends_read_ddr: "appends P read_ddr"
  by (simp add: appends_def run_read_ddr)

lemma appends_if: "(b \<Longrightarrow> appends P m) \<Longrightarrow> (\<not> b \<Longrightarrow> appends P n) \<Longrightarrow> appends P (if b then m else n)"
  by simp

lemma appends_for_each: "(\<And>x. x \<in> set xs \<Longrightarrow> appends P (f x)) \<Longrightarrow> appends P (for_each xs f)"
  by (induction xs) (auto intro: appends_ret appends_bind)

lemmas appends_intros = appends_ret appends_bind appends_out32 appends_in32 appends_in16
  appends_usleep appends_vTaskDelay appends_send_polled appends_recv_polled appends_if
  appends_for_each appends_psc_send_msg appends_read_ddr

lemma appends_trace:
  assumes "appends P m"
  obtains evs where "trace (snd (run_state m w)) = trace w @ evs" "list_all P evs"
  using assms unfolding appends_def by blast

lemma appends_env: "appends P m \<Longrightarrow> env (snd (run_state m w)) = env w"
  unfolding appends_def by blast

text \<open>The events of a program: what it adds to the trace.\<close>

definition events_of :: "'a io \<Rightarrow> world \<Rightarrow> event list" where
  "events_of m w = drop (length (trace w)) (trace (snd (run_state m w)))"

lemma events_of_eq: "trace (snd (run_state m w)) = trace w @ evs \<Longrightarrow> events_of m w = evs"
  by (simp add: events_of_def)

lemma appends_events_of: "appends P m \<Longrightarrow> list_all P (events_of m w)"
  by (erule appends_trace[where w = w]) (simp add: events_of_eq)

text \<open>
  \<open>fixed_writes m ws\<close>: whatever the hardware answers, the bus writes of \<open>m\<close> are \<open>ws\<close>.
\<close>

definition fixed_writes :: "'a io \<Rightarrow> (port \<times> u32) list \<Rightarrow> bool" where
  "fixed_writes m ws \<longleftrightarrow> (\<forall>w. writes (trace (snd (run_state m w))) = writes (trace w) @ ws)"

lemma fixed_ret: "fixed_writes (ret x) []"
  by (simp add: fixed_writes_def)

lemma fixed_bind: "fixed_writes m a \<Longrightarrow> (\<And>x. fixed_writes (f x) b) \<Longrightarrow> fixed_writes (m \<bind> f) (a @ b)"
  unfolding fixed_writes_def by (simp add: split_beta)

lemma fixed_prims:
  "fixed_writes (Xil_Out32 p v) [(p, v)]" "fixed_writes (Xil_In32 p) []" "fixed_writes (Xil_In16 p) []"
  "fixed_writes (usleep n) []" "fixed_writes (vTaskDelay n) []"
  "fixed_writes (XIicPs_MasterSendPolled a bs) []" "fixed_writes (XIicPs_MasterRecvPolled a k) []"
  by (simp_all add: fixed_writes_def io_simps split: prod.split)

lemma fixed_for_each:
  "(\<And>x. x \<in> set xs \<Longrightarrow> fixed_writes (f x) (g x)) \<Longrightarrow> fixed_writes (for_each xs f) (concat (map g xs))"
  by (induction xs) (auto intro: fixed_ret fixed_bind)

lemma fixed_none_for_each:
  "(\<And>x. fixed_writes (f x) []) \<Longrightarrow> fixed_writes (for_each xs f) []"
proof (induction xs)
  case (Cons x xs)
  then show ?case using fixed_bind[of "f x" "[]" "\<lambda>_. for_each xs f" "[]"] by simp
qed (simp add: fixed_ret)

text \<open>The legality of bus writes as a property of events.\<close>

fun legal_event :: "event \<Rightarrow> bool" where
  "legal_event (Wr32 p v) \<longleftrightarrow> legal_write p"
| "legal_event _ \<longleftrightarrow> True"

section \<open>Outcomes of a program\<close>

text \<open>
  \<open>ends h m Q\<close>: run on the hardware \<open>h\<close>, whatever happened before, \<open>m\<close> only adds events, and its
  result and these events satisfy \<open>Q\<close>. The rules take a program apart from its first step on.
\<close>

definition ends :: "hw \<Rightarrow> 'a io \<Rightarrow> ('a \<Rightarrow> event list \<Rightarrow> bool) \<Rightarrow> bool" where
  "ends h m Q \<longleftrightarrow> (\<forall>w. env w = h \<longrightarrow>
     (\<exists>x evs. run_state m w = (x, w\<lparr>trace := trace w @ evs\<rparr>) \<and> Q x evs))"

lemma endsI:
  "(\<And>w. env w = h \<Longrightarrow> \<exists>x evs. run_state m w = (x, w\<lparr>trace := trace w @ evs\<rparr>) \<and> Q x evs) \<Longrightarrow> ends h m Q"
  by (simp add: ends_def)

lemma ends_run:
  assumes "ends h m Q" "env w = h"
  obtains x evs where "run_state m w = (x, w\<lparr>trace := trace w @ evs\<rparr>)" "Q x evs"
  using assms unfolding ends_def by blast

lemma ends_start:
  assumes "ends h m Q"
  shows "Q (fst (run_state m (start_world h))) (trace (snd (run_state m (start_world h))))"
proof -
  have "env (start_world h) = h" by simp
  from ends_run[OF assms this] show ?thesis by fastforce
qed

lemma ends_ret: "Q x [] \<Longrightarrow> ends h (ret x) Q"
  by (rule endsI) (auto intro!: exI[of _ "[]"])

lemma ends_bind:
  assumes "ends h m (\<lambda>x es. ends h (f x) (\<lambda>y fs. Q y (es @ fs)))"
  shows "ends h (m \<bind> f) Q"
proof (rule endsI)
  fix w :: world
  assume w: "env w = h"
  obtain x es where m: "run_state m w = (x, w\<lparr>trace := trace w @ es\<rparr>)"
    and f: "ends h (f x) (\<lambda>y fs. Q y (es @ fs))"
    using ends_run[OF assms w] by blast
  have "env (w\<lparr>trace := trace w @ es\<rparr>) = h" using w by simp
  from ends_run[OF f this] obtain y fs where
    "run_state (f x) (w\<lparr>trace := trace w @ es\<rparr>) = (y, w\<lparr>trace := trace w @ es @ fs\<rparr>)" "Q y (es @ fs)"
    by auto
  with m show "\<exists>y gs. run_state (m \<bind> f) w = (y, w\<lparr>trace := trace w @ gs\<rparr>) \<and> Q y gs"
    by (intro exI[of _ y] exI[of _ "es @ fs"]) simp
qed

lemma ends_weaken: "ends h m P \<Longrightarrow> (\<And>x es. P x es \<Longrightarrow> Q x es) \<Longrightarrow> ends h m Q"
  unfolding ends_def by blast

text \<open>A step that adds one event.\<close>

lemma ends_event:
  "(\<And>w. env w = h \<Longrightarrow> run_state m w = (x (trace w), log_ev (e (trace w)) w) \<and> Q (x (trace w)) [e (trace w)]) \<Longrightarrow> ends h m Q"
  by (rule endsI) (auto simp: log_ev_def)

lemma ends_in32: "(\<And>tr. Q (hw_in32 h tr p) [Rd32 p (hw_in32 h tr p)]) \<Longrightarrow> ends h (Xil_In32 p) Q"
  by (rule ends_event[where x = "\<lambda>tr. hw_in32 h tr p" and e = "\<lambda>tr. Rd32 p (hw_in32 h tr p)"]) (simp add: run_in32)

lemma ends_out32: "Q () [Wr32 p v] \<Longrightarrow> ends h (Xil_Out32 p v) Q"
  by (rule ends_event[where x = "\<lambda>_. ()" and e = "\<lambda>_. Wr32 p v"]) (simp add: run_out32)

lemma ends_delay: "Q () [Delay n] \<Longrightarrow> ends h (vTaskDelay n) Q"
  by (rule ends_event[where x = "\<lambda>_. ()" and e = "\<lambda>_. Delay n"]) (simp add: run_vTaskDelay)

lemma ends_psc_send_msg: "Q () [PscSend i b] \<Longrightarrow> ends h (psc_send_msg i b) Q"
  by (rule ends_event[where x = "\<lambda>_. ()" and e = "\<lambda>_. PscSend i b"]) (simp add: run_psc_send_msg)

lemma ends_read_ddr: "(\<And>tr. Q (hw_ddr h tr) []) \<Longrightarrow> ends h read_ddr Q"
  by (rule endsI) (auto simp: run_read_ddr intro!: exI[of _ "[]"])

lemma ends_tx: "(\<And>st. Q st [I2cTx a bs st]) \<Longrightarrow> ends h (XIicPs_MasterSendPolled a bs) Q"
  by (rule ends_event[where x = "\<lambda>tr. hw_i2c_tx h tr a bs" and e = "\<lambda>tr. I2cTx a bs (hw_i2c_tx h tr a bs)"])
    (simp add: run_send_polled)

lemma ends_rx:
  "(\<And>tr st bs. hw_i2c_rx h tr a n = (st, bs) \<Longrightarrow> Q (st, fit n bs) [I2cRx a (fit n bs) st]) \<Longrightarrow> ends h (XIicPs_MasterRecvPolled a n) Q"
  by (rule ends_event[where x = "\<lambda>tr. (fst (hw_i2c_rx h tr a n), fit n (snd (hw_i2c_rx h tr a n)))"
        and e = "\<lambda>tr. I2cRx a (fit n (snd (hw_i2c_rx h tr a n))) (fst (hw_i2c_rx h tr a n))"])
    (simp add: run_recv_polled split: prod.split)

lemma ends_usleep: "Q () [Usleep n] \<Longrightarrow> ends h (usleep n) Q"
  by (rule ends_event[where x = "\<lambda>_. ()" and e = "\<lambda>_. Usleep n"]) (simp add: run_usleep)

lemma ends_events: "ends (env w) m Q \<Longrightarrow> Q (fst (run_state m w)) (events_of m w)"
  by (erule ends_run[OF _ refl]) (simp add: events_of_eq)

text \<open>What a program only adds to the trace.\<close>

lemma ends_appends:
  assumes "appends P m"
  shows "ends h m (\<lambda>_ es. list_all P es)"
proof (rule endsI)
  fix w :: world
  obtain x v where v: "run_state m w = (x, v)" by fastforce
  with assms obtain evs where e: "env v = env w" "trace v = trace w @ evs" "list_all P evs"
    unfolding appends_def by (metis snd_conv)
  then have "v = w\<lparr>trace := trace w @ evs\<rparr>" by simp
  with v e(3) show "\<exists>x evs. run_state m w = (x, w\<lparr>trace := trace w @ evs\<rparr>) \<and> list_all P evs"
    by blast
qed

lemmas ends_intros = ends_ret ends_bind ends_in32 ends_out32 ends_delay ends_psc_send_msg ends_read_ddr
  ends_usleep ends_tx ends_rx

end
