(* ===== verification/Dma_Arm.thy ===== *)
theory Dma_Arm imports Platform begin

text \<open>
  \<^verbatim>\<open>dma_arm\<close> of \<^verbatim>\<open>dmadata.c\<close>: resetting the PL FIFO and the AXI DMA core and starting a transfer of
  the ADC channel data. The control commands and the DMA data thread both use it.
\<close>

abbreviation (input) ADC_DMA_DATA :: u32 where "ADC_DMA_DATA \<equiv> 0x10000000"

abbreviation (input) TBT_DMA_DATA :: u32 where "TBT_DMA_DATA \<equiv> 0x20000000"

abbreviation (input) ADC_DMA_MAX_LEN :: nat where "ADC_DMA_MAX_LEN \<equiv> 1000000"

text \<open>The transfer length is in bytes: four channels of two bytes per sample.\<close>

definition s2mm_bytes :: "u32 \<Rightarrow> u32" where
  "s2mm_bytes adclen = (adclen + 16) * 4 * 2"

definition dma_arm :: "unit io" where
  "dma_arm = do {
     adclen \<leftarrow> Xil_In32 (PL DMA_ADCBURSTLEN_REG);
     Xil_Out32 (PL DMA_FIFORST_REG) 1;
     Xil_Out32 (PL DMA_FIFORST_REG) 0;
     Xil_Out32 (AXI_DMA_ADC S2MM_DMACR) 4;
     Xil_Out32 (AXI_DMA_ADC S2MM_DMACR) 0xF001;
     Xil_Out32 (AXI_DMA_ADC S2MM_DA) ADC_DMA_DATA;
     Xil_Out32 (AXI_DMA_ADC S2MM_LEN) (s2mm_bytes adclen)
   }"

text \<open>What it does, given the length the hardware reports.\<close>

lemma run_dma_arm [io_simps]:
  "run_state dma_arm w =
     (let n = hw_in32 (env w) (trace w) (PL DMA_ADCBURSTLEN_REG) in
      ((), w\<lparr>trace := trace w @
        [Rd32 (PL DMA_ADCBURSTLEN_REG) n,
         Wr32 (PL DMA_FIFORST_REG) 1, Wr32 (PL DMA_FIFORST_REG) 0,
         Wr32 (AXI_DMA_ADC S2MM_DMACR) 4, Wr32 (AXI_DMA_ADC S2MM_DMACR) 0xF001,
         Wr32 (AXI_DMA_ADC S2MM_DA) ADC_DMA_DATA, Wr32 (AXI_DMA_ADC S2MM_LEN) (s2mm_bytes n)]\<rparr>))"
  by (simp add: dma_arm_def io_simps log_ev_def Let_def)

lemma dma_arm_legal: "appends legal_event dma_arm"
  unfolding dma_arm_def by (intro appends_intros) (simp_all add: rdl_map_def)

text \<open>In the range the setters allow the length does not wrap, fits the 26 bit length register of
  the core (\<^verbatim>\<open>c_sg_length_width\<close> in \<^verbatim>\<open>system.tcl\<close>) and ends below the next DMA buffer.\<close>

lemma s2mm_bytes_unat:
  assumes "unat n \<le> ADC_DMA_MAX_LEN"
  shows "unat (s2mm_bytes n) = 8 * (unat n + 16)"
proof -
  have a: "unat (n + 16) = unat n + 16"
    using assms by (simp add: unat_word_ariths)
  have "s2mm_bytes n = (n + 16) * 8"
    by (simp add: s2mm_bytes_def)
  then show ?thesis
    using assms a by (simp add: unat_word_ariths)
qed

end
