(* ===== verification/Control.thy ===== *)
theory Control imports Dma_Arm begin

text \<open>
  \<^verbatim>\<open>control.c\<close> and the message numbers of \<^verbatim>\<open>psc_msg.h\<close>: the setters a client's register message
  reaches, and \<open>reg_settings\<close>, which decodes a message and calls one of them.
\<close>

section \<open>Constants\<close>

abbreviation (input) HOR :: u32 where "HOR \<equiv> 0"
abbreviation (input) VERT :: u32 where "VERT \<equiv> 1"
abbreviation (input) CHA :: u32 where "CHA \<equiv> 0"
abbreviation (input) CHB :: u32 where "CHB \<equiv> 1"
abbreviation (input) CHC :: u32 where "CHC \<equiv> 2"
abbreviation (input) CHD :: u32 where "CHD \<equiv> 3"
abbreviation (input) ADC :: u32 where "ADC \<equiv> 0"
abbreviation (input) TBT :: u32 where "TBT \<equiv> 1"
abbreviation (input) FA :: u32 where "FA \<equiv> 2"

text \<open>\<^verbatim>\<open>psc_msg.h\<close>, "Control Message Offsets".\<close>

datatype ctl_msg =
    SOFT_TRIG_MSG | FP_LED_MSG | PILOT_TONE_ENB_MSG | ADC_IDLY_MSG | ADC_MMCM0_MSG | ADC_MMCM1_MSG
  | ADC_SPI_MSG | EVENT_SRC_SEL_MSG | DMA_TRIG_SRC_MSG | DMA_ADCLEN_MSG | DMA_TBTLEN_MSG
  | DMA_FALEN_MSG | DDC_LPFILT_SEL_MSG | MACHINE_SEL_MSG | PILOT_TONE_SPI_MSG | RF_ATTEN_MSG
  | PT_ATTEN_MSG | KX_MSG | KY_MSG | BBA_XOFF_MSG | BBA_YOFF_MSG | CHA_GAIN_MSG | CHB_GAIN_MSG
  | CHC_GAIN_MSG | CHD_GAIN_MSG | TBT_GATE_WIDTH_MSG | DMA_TRIG_DLY_MSG | TRIGTOBEAM_THRESH_MSG
  | EVENT_NO_MSG | RFFESW_ENB_MSG | RFFESW_TRIGDLY_MSG | RFFESW_DEMUXDLY_MSG | RFFESW_ADCDMASEL_MSG

definition ctl_codes :: "(u32 \<times> ctl_msg) list" where
  "ctl_codes = [(0, SOFT_TRIG_MSG), (4, FP_LED_MSG), (8, PILOT_TONE_ENB_MSG), (12, ADC_IDLY_MSG),
     (16, ADC_MMCM0_MSG), (20, ADC_MMCM1_MSG), (24, ADC_SPI_MSG), (36, EVENT_SRC_SEL_MSG),
     (52, DMA_TRIG_SRC_MSG), (56, DMA_ADCLEN_MSG), (60, DMA_TBTLEN_MSG), (64, DMA_FALEN_MSG),
     (68, DDC_LPFILT_SEL_MSG), (76, MACHINE_SEL_MSG), (104, PILOT_TONE_SPI_MSG),
     (132, RF_ATTEN_MSG), (136, PT_ATTEN_MSG), (144, KX_MSG), (148, KY_MSG), (152, BBA_XOFF_MSG),
     (156, BBA_YOFF_MSG), (160, CHA_GAIN_MSG), (164, CHB_GAIN_MSG), (168, CHC_GAIN_MSG),
     (172, CHD_GAIN_MSG), (196, TBT_GATE_WIDTH_MSG), (272, DMA_TRIG_DLY_MSG),
     (276, TRIGTOBEAM_THRESH_MSG), (320, EVENT_NO_MSG), (400, RFFESW_ENB_MSG),
     (404, RFFESW_TRIGDLY_MSG), (408, RFFESW_DEMUXDLY_MSG), (412, RFFESW_ADCDMASEL_MSG)]"

section \<open>Setters\<close>

definition set_fpleds :: "u32 \<Rightarrow> unit io" where
  "set_fpleds msgVal = Xil_Out32 (PL FP_LEDS_REG) msgVal"

definition soft_trig :: "u32 \<Rightarrow> unit io" where
  "soft_trig msgVal =
     (if msgVal = 1 then do {
        Xil_Out32 (PL DMA_SOFTTRIG_REG) 1;
        Xil_Out32 (PL DMA_SOFTTRIG_REG) 0
      } else ret ())"

definition set_atten :: "u32 \<Rightarrow> unit io" where
  "set_atten msgVal = Xil_Out32 (PL RF_DSA_REG) (msgVal * 4)"

definition set_geo_dly :: "u32 \<Rightarrow> unit io" where
  "set_geo_dly msgVal = do {
     Xil_Out32 (PL FINE_TRIG_DLY_REG) msgVal;
     Xil_Out32 (PL TBT_GATEDLY_REG) msgVal
   }"

definition set_dma_trig_dly :: "u32 \<Rightarrow> unit io" where
  "set_dma_trig_dly msgVal = Xil_Out32 (PL DMA_TRIG_DLY_REG) (msgVal + 1)"

text \<open>The parameter is an \<open>int\<close>; passing a \<open>u32\<close> and writing it back keeps the bits.\<close>

definition set_trigtobeam_thresh :: "int \<Rightarrow> unit io" where
  "set_trigtobeam_thresh msgVal = Xil_Out32 (PL TRIGTOBEAM_THRESH_REG) (word_of_int msgVal)"

definition set_eventno :: "u32 \<Rightarrow> unit io" where
  "set_eventno msgVal = Xil_Out32 (PL EVR_DMA_TRIGNUM_REG) msgVal"

definition set_trigsrc :: "u32 \<Rightarrow> unit io" where
  "set_trigsrc msgVal =
     (if msgVal = 0 then Xil_Out32 (PL DMA_TRIGSRC_REG) msgVal
      else if msgVal = 1 then Xil_Out32 (PL DMA_TRIGSRC_REG) msgVal
      else ret ())"

definition set_kxky :: "u32 \<Rightarrow> u32 \<Rightarrow> unit io" where
  "set_kxky axis msgVal =
     (if axis = HOR then Xil_Out32 (PL KX_REG) msgVal else Xil_Out32 (PL KY_REG) msgVal)"

definition set_bbaoffset :: "u32 \<Rightarrow> u32 \<Rightarrow> unit io" where
  "set_bbaoffset axis msgVal =
     (if axis = HOR then Xil_Out32 (PL BBA_XOFF_REG) msgVal
      else Xil_Out32 (PL BBA_YOFF_REG) msgVal)"

definition clamp :: "int \<Rightarrow> int \<Rightarrow> int \<Rightarrow> int" where
  "clamp val lo hi = (if val < lo then lo else if val > hi then hi else val)"

text \<open>\<open>clamp\<close> takes an \<open>int\<close>, so the \<open>u32\<close> argument is read as a signed number.\<close>

definition clamp_u32 :: "u32 \<Rightarrow> int \<Rightarrow> int \<Rightarrow> u32" where
  "clamp_u32 msgVal lo hi = word_of_int (clamp (sint msgVal) lo hi)"

definition set_dmalen :: "u32 \<Rightarrow> u32 \<Rightarrow> unit io" where
  "set_dmalen channel msgVal = do {
     Xil_Out32 (PL DMA_ADCENABLE_REG) 0;
     Xil_Out32 (PL DMA_TBTENABLE_REG) 0;
     Xil_Out32 (PL DMA_FAENABLE_REG) 0;
     (if channel = ADC then Xil_Out32 (PL DMA_ADCBURSTLEN_REG) (clamp_u32 msgVal 1000 1000000)
      else if channel = TBT then Xil_Out32 (PL DMA_TBTBURSTLEN_REG) (clamp_u32 msgVal 1000 1000000)
      else if channel = FA then Xil_Out32 (PL DMA_FABURSTLEN_REG) (clamp_u32 msgVal 1000 100000)
      else ret ());
     dma_arm
   }"

definition set_gain :: "u32 \<Rightarrow> u32 \<Rightarrow> unit io" where
  "set_gain channel msgVal =
     (if channel = CHA then Xil_Out32 (PL CHA_GAIN_REG) msgVal
      else if channel = CHB then Xil_Out32 (PL CHB_GAIN_REG) msgVal
      else if channel = CHC then Xil_Out32 (PL CHC_GAIN_REG) msgVal
      else if channel = CHD then Xil_Out32 (PL CHD_GAIN_REG) msgVal
      else ret ())"

section \<open>reg_settings\<close>

text \<open>The longer cases of the switch, each under its message.\<close>

definition adc_idly :: "u32 \<Rightarrow> unit io" where
  "adc_idly d = do {
     Xil_Out32 (PL ADC_IDLYWVAL_REG) d;
     Xil_Out32 (PL ADC_IDLYSTR_REG) 0xFFFF;
     Xil_Out32 (PL ADC_IDLYSTR_REG) 0;
     usleep 10;
     Xil_In32 (PL ADC_IDLYCHARVAL_REG);
     Xil_In32 (PL ADC_IDLYCHBRVAL_REG);
     Xil_In32 (PL ADC_IDLYCHCRVAL_REG);
     Xil_In32 (PL ADC_IDLYCHDRVAL_REG);
     ret ()
   }"

definition adc_mmcm :: "u32 \<Rightarrow> u32 \<Rightarrow> unit io" where
  "adc_mmcm strobe d =
     (if d = 1 then do {
        Xil_Out32 (PL ADC_FCOMMCM_REG) strobe;
        Xil_Out32 (PL ADC_FCOMMCM_REG) 0
      } else ret ())"

definition adc_spi_frame :: "u32 \<Rightarrow> u32" where
  "adc_spi_frame d =
     (let regAddr = drop_bit 8 (d AND 0xFF00); regVal = d AND 0xFF
      in push_bit 8 regAddr OR regVal)"

definition adc_spi :: "u32 \<Rightarrow> unit io" where
  "adc_spi d = do {
     Xil_Out32 (PL ADC_SPI_REG) (adc_spi_frame d);
     usleep 1000;
     Xil_Out32 (PL ADC_SPI_REG) (0x8000 OR adc_spi_frame d);
     usleep 1000;
     Xil_In32 (PL ADC_SPI_REG);
     usleep 1000;
     Xil_Out32 (PL ADC_SPI_REG) (0x10000 OR 0x8000 OR adc_spi_frame d);
     usleep 1000;
     Xil_In32 (PL ADC_SPI_REG);
     ret ()
   }"

text \<open>The switch itself. Messages that \<^verbatim>\<open>psc_msg.h\<close> numbers and the switch has no case for take the
  default, as unknown numbers do.\<close>

definition reg_dispatch :: "u32 \<Rightarrow> u32 \<Rightarrow> unit io" where
  "reg_dispatch addr d = (case map_of ctl_codes addr of
     Some SOFT_TRIG_MSG \<Rightarrow> soft_trig d
   | Some DMA_TRIG_SRC_MSG \<Rightarrow> set_trigsrc d
   | Some RF_ATTEN_MSG \<Rightarrow> set_atten d
   | Some KX_MSG \<Rightarrow> set_kxky HOR d
   | Some KY_MSG \<Rightarrow> set_kxky VERT d
   | Some BBA_XOFF_MSG \<Rightarrow> set_bbaoffset HOR d
   | Some BBA_YOFF_MSG \<Rightarrow> set_bbaoffset VERT d
   | Some CHA_GAIN_MSG \<Rightarrow> set_gain CHA d
   | Some CHB_GAIN_MSG \<Rightarrow> set_gain CHB d
   | Some CHC_GAIN_MSG \<Rightarrow> set_gain CHC d
   | Some CHD_GAIN_MSG \<Rightarrow> set_gain CHD d
   | Some DMA_TRIG_DLY_MSG \<Rightarrow> set_dma_trig_dly d
   | Some TRIGTOBEAM_THRESH_MSG \<Rightarrow> set_trigtobeam_thresh (sint d)
   | Some DDC_LPFILT_SEL_MSG \<Rightarrow> Xil_Out32 (PL DDC_LPFILT_SEL_REG) d
   | Some EVENT_NO_MSG \<Rightarrow> set_eventno d
   | Some FP_LED_MSG \<Rightarrow> ret ()
   | Some DMA_ADCLEN_MSG \<Rightarrow> set_dmalen ADC d
   | Some DMA_TBTLEN_MSG \<Rightarrow> set_dmalen TBT d
   | Some DMA_FALEN_MSG \<Rightarrow> set_dmalen FA d
   | Some EVENT_SRC_SEL_MSG \<Rightarrow> Xil_Out32 (PL EVENT_SRC_SEL_REG) d
   | Some RFFESW_ENB_MSG \<Rightarrow> Xil_Out32 (PL SWRFFE_ENB_REG) d
   | Some RFFESW_TRIGDLY_MSG \<Rightarrow> Xil_Out32 (PL SWRFFE_TRIGDLY_REG) d
   | Some RFFESW_DEMUXDLY_MSG \<Rightarrow> Xil_Out32 (PL SWRFFE_DEMUXDLY_REG) d
   | Some RFFESW_ADCDMASEL_MSG \<Rightarrow> Xil_Out32 (PL SWRFFE_ADCDMASEL_REG) d
   | Some ADC_IDLY_MSG \<Rightarrow> adc_idly d
   | Some ADC_MMCM0_MSG \<Rightarrow> adc_mmcm 1 d
   | Some ADC_MMCM1_MSG \<Rightarrow> adc_mmcm 2 d
   | Some ADC_SPI_MSG \<Rightarrow> adc_spi d
   | _ \<Rightarrow> ret ())"

text \<open>The message is read from the receive buffer, without a look at how much of it was received:
  \<open>None\<close> would be a read past the end of the buffer.\<close>

definition reg_settings :: "u8 list \<Rightarrow> unit io option" where
  "reg_settings msg = (case (ld32 msg 0, ld32 msg 4) of
     (Some m0, Some m1) \<Rightarrow> Some (reg_dispatch (htonl m0) (htonl m1))
   | _ \<Rightarrow> None)"

section \<open>Which writes a message can cause\<close>

lemmas setter_defs = set_fpleds_def soft_trig_def set_atten_def set_dma_trig_dly_def
  set_trigtobeam_thresh_def set_eventno_def set_trigsrc_def set_kxky_def set_bbaoffset_def
  set_gain_def adc_idly_def adc_mmcm_def adc_spi_def

lemma set_dmalen_legal: "appends legal_event (set_dmalen ch d)"
  unfolding set_dmalen_def
  by (intro appends_intros dma_arm_legal) (simp_all add: rdl_map_def)

lemma setter_legal:
  "appends legal_event (soft_trig d)" "appends legal_event (set_trigsrc d)"
  "appends legal_event (set_atten d)" "appends legal_event (set_kxky a d)"
  "appends legal_event (set_bbaoffset a d)" "appends legal_event (set_gain a d)"
  "appends legal_event (set_dma_trig_dly d)" "appends legal_event (set_trigtobeam_thresh i)"
  "appends legal_event (set_eventno d)" "appends legal_event (adc_idly d)"
  "appends legal_event (adc_mmcm s d)" "appends legal_event (adc_spi d)"
  unfolding setter_defs by (intro appends_intros; simp add: rdl_map_def)+

lemma reg_dispatch_legal: "appends legal_event (reg_dispatch a d)"
  unfolding reg_dispatch_def
  by (auto split: option.split ctl_msg.split
      intro!: setter_legal set_dmalen_legal appends_ret appends_out32 simp: rdl_map_def)

section \<open>What a message leaves in the registers\<close>

text \<open>
  The specification of a register message: for each message the PL registers it leaves changed,
  with their final values. Strobed registers are back at zero; a length is clamped; the messages
  without a case, and those a guard rejects, change nothing.
\<close>

definition setting_spec :: "ctl_msg \<Rightarrow> u32 \<Rightarrow> (nat \<times> u32) list" where
  "setting_spec m d = (case m of
     SOFT_TRIG_MSG \<Rightarrow> (if d = 1 then [(DMA_SOFTTRIG_REG, 0)] else [])
   | DMA_TRIG_SRC_MSG \<Rightarrow> (if d \<in> {0, 1} then [(DMA_TRIGSRC_REG, d)] else [])
   | RF_ATTEN_MSG \<Rightarrow> [(RF_DSA_REG, 4 * d)]
   | KX_MSG \<Rightarrow> [(KX_REG, d)]
   | KY_MSG \<Rightarrow> [(KY_REG, d)]
   | BBA_XOFF_MSG \<Rightarrow> [(BBA_XOFF_REG, d)]
   | BBA_YOFF_MSG \<Rightarrow> [(BBA_YOFF_REG, d)]
   | CHA_GAIN_MSG \<Rightarrow> [(CHA_GAIN_REG, d)]
   | CHB_GAIN_MSG \<Rightarrow> [(CHB_GAIN_REG, d)]
   | CHC_GAIN_MSG \<Rightarrow> [(CHC_GAIN_REG, d)]
   | CHD_GAIN_MSG \<Rightarrow> [(CHD_GAIN_REG, d)]
   | DMA_TRIG_DLY_MSG \<Rightarrow> [(DMA_TRIG_DLY_REG, d + 1)]
   | TRIGTOBEAM_THRESH_MSG \<Rightarrow> [(TRIGTOBEAM_THRESH_REG, d)]
   | DDC_LPFILT_SEL_MSG \<Rightarrow> [(DDC_LPFILT_SEL_REG, d)]
   | EVENT_NO_MSG \<Rightarrow> [(EVR_DMA_TRIGNUM_REG, d)]
   | EVENT_SRC_SEL_MSG \<Rightarrow> [(EVENT_SRC_SEL_REG, d)]
   | DMA_ADCLEN_MSG \<Rightarrow> [(DMA_ADCENABLE_REG, 0), (DMA_TBTENABLE_REG, 0), (DMA_FAENABLE_REG, 0),
       (DMA_FIFORST_REG, 0), (DMA_ADCBURSTLEN_REG, clamp_u32 d 1000 1000000)]
   | DMA_TBTLEN_MSG \<Rightarrow> [(DMA_ADCENABLE_REG, 0), (DMA_TBTENABLE_REG, 0), (DMA_FAENABLE_REG, 0),
       (DMA_FIFORST_REG, 0), (DMA_TBTBURSTLEN_REG, clamp_u32 d 1000 1000000)]
   | DMA_FALEN_MSG \<Rightarrow> [(DMA_ADCENABLE_REG, 0), (DMA_TBTENABLE_REG, 0), (DMA_FAENABLE_REG, 0),
       (DMA_FIFORST_REG, 0), (DMA_FABURSTLEN_REG, clamp_u32 d 1000 100000)]
   | RFFESW_ENB_MSG \<Rightarrow> [(SWRFFE_ENB_REG, d)]
   | RFFESW_TRIGDLY_MSG \<Rightarrow> [(SWRFFE_TRIGDLY_REG, d)]
   | RFFESW_DEMUXDLY_MSG \<Rightarrow> [(SWRFFE_DEMUXDLY_REG, d)]
   | RFFESW_ADCDMASEL_MSG \<Rightarrow> [(SWRFFE_ADCDMASEL_REG, d)]
   | ADC_IDLY_MSG \<Rightarrow> [(ADC_IDLYWVAL_REG, d), (ADC_IDLYSTR_REG, 0)]
   | ADC_MMCM0_MSG \<Rightarrow> (if d = 1 then [(ADC_FCOMMCM_REG, 0)] else [])
   | ADC_MMCM1_MSG \<Rightarrow> (if d = 1 then [(ADC_FCOMMCM_REG, 0)] else [])
   | ADC_SPI_MSG \<Rightarrow> [(ADC_SPI_REG, 0x18000 OR (d AND 0xFFFF))]
   | _ \<Rightarrow> [])"

definition dispatch_spec :: "u32 \<Rightarrow> u32 \<Rightarrow> nat \<rightharpoonup> u32" where
  "dispatch_spec a d = (case map_of ctl_codes a of
     None \<Rightarrow> Map.empty | Some m \<Rightarrow> map_of (setting_spec m d))"

lemma adc_spi_frame_eq: "adc_spi_frame d = d AND 0xFFFF"
  by (rule bit_word_eqI) (auto simp: adc_spi_frame_def Let_def bit_simps bit_byte_masks)

text \<open>The events each setter adds: what the lemmas below compute with.\<close>

lemma run_set_dmalen [io_simps]:
  "run_state (set_dmalen ch d) w =
     (let lenw = (if ch = ADC then [Wr32 (PL DMA_ADCBURSTLEN_REG) (clamp_u32 d 1000 1000000)]
                  else if ch = TBT then [Wr32 (PL DMA_TBTBURSTLEN_REG) (clamp_u32 d 1000 1000000)]
                  else if ch = FA then [Wr32 (PL DMA_FABURSTLEN_REG) (clamp_u32 d 1000 100000)]
                  else []);
          w1 = w\<lparr>trace := trace w @ [Wr32 (PL DMA_ADCENABLE_REG) 0, Wr32 (PL DMA_TBTENABLE_REG) 0,
                 Wr32 (PL DMA_FAENABLE_REG) 0] @ lenw\<rparr>
      in run_state dma_arm w1)"
  by (simp add: set_dmalen_def io_simps log_ev_def Let_def)

lemma run_adc_spi:
  "writes (events_of (adc_spi d) w) = [(PL ADC_SPI_REG, adc_spi_frame d),
     (PL ADC_SPI_REG, 0x8000 OR adc_spi_frame d), (PL ADC_SPI_REG, 0x18000 OR adc_spi_frame d)]"
  by (simp add: events_of_def adc_spi_def io_simps log_ev_def Let_def flip: or.assoc)

section \<open>What a message leaves in the registers: proofs\<close>

lemma reg_dispatch_last_write:
  "last_write (trace (snd (run_state (reg_dispatch a d) w))) (PL r) =
     (case dispatch_spec a d r of None \<Rightarrow> last_write (trace w) (PL r) | Some v \<Rightarrow> Some v)"
proof (cases "map_of ctl_codes a")
  case None
  then show ?thesis by (simp add: reg_dispatch_def dispatch_spec_def)
next
  case (Some m)
  then show ?thesis
    by (cases m) (simp_all add: reg_dispatch_def dispatch_spec_def setting_spec_def setter_defs
        io_simps log_ev_def Let_def last_write_append adc_spi_frame_eq or.assoc [symmetric])
qed

text \<open>The strobe registers: the code pulses them and leaves them at zero.\<close>

definition strobe_regs :: "nat list" where
  "strobe_regs = [DMA_SOFTTRIG_REG, DMA_FIFORST_REG, ADC_IDLYSTR_REG, ADC_FCOMMCM_REG]"

definition strobes_idle :: "event list \<Rightarrow> bool" where
  "strobes_idle tr \<longleftrightarrow> list_all (\<lambda>r. last_write tr (PL r) \<in> {None, Some 0}) strobe_regs"

text \<open>Client messages in any number and order, as a machine.\<close>

inductive ctl_step :: "world \<Rightarrow> world \<Rightarrow> bool" where
  message: "ctl_step w (snd (run_state (reg_dispatch a d) w))"

inductive_cases ctl_stepE: "ctl_step w w'"

lemma setting_spec_strobes:
  "r \<in> set strobe_regs \<Longrightarrow> map_of (setting_spec m d) r = Some v \<Longrightarrow> v = 0"
  by (cases m) (auto simp: setting_spec_def strobe_regs_def split: if_splits)

lemma reg_dispatch_strobes:
  assumes "strobes_idle (trace w)"
  shows "strobes_idle (trace (snd (run_state (reg_dispatch a d) w)))"
  using assms
  by (auto simp: reg_dispatch_last_write dispatch_spec_def strobes_idle_def list_all_iff
      split: option.split dest: setting_spec_strobes)

lemma strobes_idle_start: "strobes_idle []"
  by (simp add: strobes_idle_def list_all_iff last_write_def)

interpretation ctl: inv_machine "\<lambda>w. trace w = []" ctl_step "\<lambda>w. strobes_idle (trace w)"
  by unfold_locales (auto elim!: ctl_stepE intro: reg_dispatch_strobes strobes_idle_start)

lemma for_each_ctl_steps:
  "ctl_step\<^sup>*\<^sup>* w (snd (run_state (for_each msgs (\<lambda>(a, d). reg_dispatch a d)) w))"
proof (induction msgs arbitrary: w)
  case Nil
  then show ?case by simp
next
  case (Cons m msgs)
  obtain a d where [simp]: "m = (a, d)" by fastforce
  obtain v where v: "run_state (reg_dispatch a d) w = ((), v)"
    by (cases "run_state (reg_dispatch a d) w") auto
  have "ctl_step w v" using ctl_step.message[of w a d] v by simp
  then show ?case
    using Cons.IH[of v] v by (simp add: converse_rtranclp_into_rtranclp)
qed

text \<open>The numbers the switch has a case for.\<close>

definition handled_codes :: "u32 list" where
  "handled_codes = [0, 4, 12, 16, 20, 24, 36, 52, 56, 60, 64, 68, 132, 144, 148, 152, 156, 160,
     164, 168, 172, 272, 276, 320, 400, 404, 408, 412]"

lemma clamp_bounds: "lo \<le> hi \<Longrightarrow> lo \<le> clamp v lo hi \<and> clamp v lo hi \<le> hi"
  by (simp add: clamp_def)

lemma uint_clamp_u32:
  assumes "0 \<le> lo" "lo \<le> hi" "hi < 2 ^ 32"
  shows "uint (clamp_u32 d lo hi) = clamp (sint d) lo hi"
  using assms clamp_bounds[of lo hi "sint d"] by (simp add: clamp_u32_def uint_word_of_int_eq take_bit_int_eq_self)

section \<open>Properties\<close>

text \<open>
  Property C2 (refinement): a register message leaves exactly the registers its specification
  names changed, with the values the specification gives; every other register keeps its value.
\<close>

theorem dispatch_refines_spec:
  "last_write (trace (snd (run_state (reg_dispatch a d) w))) (PL r) =
     (case dispatch_spec a d r of None \<Rightarrow> last_write (trace w) (PL r) | Some v \<Rightarrow> Some v)"
  by (rule reg_dispatch_last_write)

text \<open>
  Whatever a client sends, every bus write it causes goes to an aligned
  register that the address map lets software write.
\<close>

theorem dispatch_writes_legal: "list_all legal_event (events_of (reg_dispatch a d) w)"
  by (rule appends_events_of) (rule reg_dispatch_legal)

text \<open>
  The ADC length message disables the three channels, programs the length
  clamped to 1000 .. 1000000 samples, re-arms the core and writes the transfer length last. On
  hardware that stores the length the core gets eight bytes per sample for 16 samples more; this
  does not wrap, fits the core's 26 bit length register and ends below the next DMA buffer.
\<close>

theorem dma_length_programmed:
  assumes "stores (env w) (PL DMA_ADCBURSTLEN_REG)"
    and n: "n = clamp (sint d) 1000 1000000"
  shows "writes (events_of (reg_dispatch 56 d) w) =
      [(PL DMA_ADCENABLE_REG, 0), (PL DMA_TBTENABLE_REG, 0), (PL DMA_FAENABLE_REG, 0),
       (PL DMA_ADCBURSTLEN_REG, word_of_int n), (PL DMA_FIFORST_REG, 1), (PL DMA_FIFORST_REG, 0),
       (AXI_DMA_ADC S2MM_DMACR, 4), (AXI_DMA_ADC S2MM_DMACR, 0xF001),
       (AXI_DMA_ADC S2MM_DA, ADC_DMA_DATA), (AXI_DMA_ADC S2MM_LEN, word_of_int (8 * (n + 16)))]
    \<and> 1000 \<le> n \<and> n \<le> 1000000 \<and> uint (word_of_int (8 * (n + 16)) :: u32) = 8 * (n + 16)
    \<and> 8 * (n + 16) < 2 ^ 26 \<and> uint ADC_DMA_DATA + 8 * (n + 16) \<le> uint TBT_DMA_DATA"
proof -
  have bounds: "1000 \<le> n" "n \<le> 1000000"
    using clamp_bounds[of 1000 1000000 "sint d"] n by simp_all
  have read: "hw_in32 (env w) (trace w @ [Wr32 (PL DMA_ADCENABLE_REG) 0, Wr32 (PL DMA_TBTENABLE_REG) 0,
        Wr32 (PL DMA_FAENABLE_REG) 0, Wr32 (PL DMA_ADCBURSTLEN_REG) (clamp_u32 d 1000 1000000)])
      (PL DMA_ADCBURSTLEN_REG) = clamp_u32 d 1000 1000000"
    using assms(1) by (simp add: stores_def last_write_append)
  have len: "clamp_u32 d 1000 1000000 = word_of_int n"
    by (simp add: clamp_u32_def n)
  have range: "uint (word_of_int (8 * (n + 16)) :: u32) = 8 * (n + 16)"
    using bounds by (simp only: uint_word_of_int_eq) (simp add: take_bit_int_eq_self)
  have bytes: "s2mm_bytes (word_of_int n) = word_of_int (8 * (n + 16))"
    by (simp add: s2mm_bytes_def wi_hom_syms algebra_simps)
  show ?thesis
    unfolding range using bounds read
    by (simp add: reg_dispatch_def ctl_codes_def events_of_def io_simps Let_def len bytes)
qed

theorem dma_length_programmed_witness:
  "writes (events_of (reg_dispatch 56 2000000) (start_world storing_hw)) =
      [(PL DMA_ADCENABLE_REG, 0), (PL DMA_TBTENABLE_REG, 0), (PL DMA_FAENABLE_REG, 0),
       (PL DMA_ADCBURSTLEN_REG, 1000000), (PL DMA_FIFORST_REG, 1), (PL DMA_FIFORST_REG, 0),
       (AXI_DMA_ADC S2MM_DMACR, 4), (AXI_DMA_ADC S2MM_DMACR, 0xF001),
       (AXI_DMA_ADC S2MM_DA, ADC_DMA_DATA), (AXI_DMA_ADC S2MM_LEN, 8000128)]"
  using dma_length_programmed[of "start_world storing_hw" 1000000 2000000]
  by (simp add: clamp_def)

text \<open>
  After any sequence of client messages, on any hardware, every strobe
  register is back at zero.
\<close>

theorem strobes_idle_after_messages:
  "strobes_idle (trace (snd (run_state (for_each msgs (\<lambda>(a, d). reg_dispatch a d)) (start_world h))))"
  by (rule ctl.inv_reachable[OF _ for_each_ctl_steps]) simp

text \<open>
  A message has an effect exactly when its number has a case of the switch
  that is not the disabled LED message, and the guard of the case accepts the value.
\<close>

theorem dispatch_effect_iff:
  "events_of (reg_dispatch a d) w \<noteq> [] \<longleftrightarrow>
     a \<in> set handled_codes \<and> a \<noteq> 4 \<and>
     (if a = 0 \<or> a = 16 \<or> a = 20 then d = 1 else if a = 52 then d = 0 \<or> d = 1 else True)"
proof (cases "map_of ctl_codes a")
  case None
  then have "a \<notin> set handled_codes"
    by (auto simp: ctl_codes_def handled_codes_def split: if_splits)
  with None show ?thesis by (simp add: reg_dispatch_def events_of_def)
next
  case (Some m)
  then have "(a, m) \<in> set ctl_codes" by (rule map_of_SomeD)
  with Some show ?thesis
    by (cases m) (simp_all add: reg_dispatch_def events_of_def setter_defs io_simps log_ev_def
        Let_def handled_codes_def ctl_codes_def)
qed

text \<open>
  The ADC SPI message sends three frames built from the low 16 bits of
  the value: as it is, with the read bit, and with the read bit to the second ADC. The first is a
  write command only when bit 15 of the value is clear.
\<close>

theorem adc_spi_frames:
  "writes (events_of (reg_dispatch 24 d) w) =
     [(PL ADC_SPI_REG, d AND 0xFFFF), (PL ADC_SPI_REG, 0x8000 OR (d AND 0xFFFF)),
      (PL ADC_SPI_REG, 0x18000 OR (d AND 0xFFFF))]
   \<and> (bit (d AND 0xFFFF) 15 \<longleftrightarrow> bit d 15)"
  by (simp add: reg_dispatch_def ctl_codes_def run_adc_spi adc_spi_frame_eq bit_simps bit_byte_masks)

text \<open>
  On the wire a register message is two big-endian words, number and
  value; anything after them is ignored, and a buffer of less than eight bytes would be read past
  its end.
\<close>

theorem reg_settings_wire:
  "reg_settings (be32 a @ be32 d @ rest) = Some (reg_dispatch a d)
   \<and> (reg_settings msg = None \<longleftrightarrow> length msg < 8)"
proof -
  have "ld32 (be32 a @ be32 d @ rest) 4 = Some (htonl d)"
    using ld32_drop[of "be32 a" 4 "be32 d @ rest"] by (simp add: ld32_be32)
  moreover have "reg_settings msg = None \<longleftrightarrow> \<not> (\<exists>w. ld32 msg 0 = Some w) \<or> \<not> (\<exists>w. ld32 msg 4 = Some w)"
    by (auto simp: reg_settings_def split: option.splits)
  then have "reg_settings msg = None \<longleftrightarrow> length msg < 8"
    unfolding ld32_Some_iff by auto
  ultimately show ?thesis by (simp add: reg_settings_def ld32_be32)
qed

end
