(* ===== verification/Psc_Msg.thy ===== *)
theory Psc_Msg imports Prelude begin

text \<open>
  \<^verbatim>\<open>pscmsg.c\<close>: framed messages over a byte stream. A socket is a state of its own type with two
  operations of lwIP, \<open>send\<close> and \<open>recv\<close>, which are arguments of every definition; what the code
  relies on them for is stated by \<open>recv_ok\<close> and \<open>send_ok\<close>. A return code is \<open>None\<close> for 0 and
  otherwise the error number.
\<close>

section \<open>Sockets\<close>

datatype errno = ENOTCONN | EIO | SysErr nat

text \<open>One call: negative (with \<open>errno\<close>), or the bytes delivered (none of them: 0 is returned).\<close>

datatype rx = RxErr errno | RxGot "u8 list"

text \<open>One call: negative (with \<open>errno\<close>), or the number of bytes taken.\<close>

datatype tx = TxErr errno | TxSent nat

type_synonym 's recv_fn = "'s \<Rightarrow> nat \<Rightarrow> rx \<times> 's"
type_synonym 's send_fn = "'s \<Rightarrow> u8 list \<Rightarrow> tx \<times> 's"

section \<open>Sending and receiving a whole buffer\<close>

text \<open>The loops count down the bytes still to go. Each pass that goes on has moved at least one.\<close>

function psc_sendall :: "'s send_fn \<Rightarrow> 's \<Rightarrow> u8 list \<Rightarrow> errno option \<times> 's" where
  "psc_sendall send s buf =
     (if buf = [] then (None, s)
      else case send s buf of
        (TxErr e, s') \<Rightarrow> (Some e, s')
      | (TxSent n, s') \<Rightarrow> if n = 0 then (Some ENOTCONN, s') else psc_sendall send s' (drop n buf))"
  by pat_completeness auto
termination
  by (relation "measure (\<lambda>(_, _, buf). length buf)") auto

text \<open>
  The second component is what the calls stored in the caller's buffer, in order, whether or not
  the whole succeeded.
\<close>

function psc_recvall :: "'s recv_fn \<Rightarrow> 's \<Rightarrow> nat \<Rightarrow> errno option \<times> u8 list \<times> 's" where
  "psc_recvall rcv s n =
     (if n = 0 then (None, [], s)
      else case rcv s n of
        (RxErr e, s') \<Rightarrow> (Some e, [], s')
      | (RxGot bs, s') \<Rightarrow>
          if bs = [] then (Some ENOTCONN, [], s')
          else case psc_recvall rcv s' (n - length bs) of (r, cs, s'') \<Rightarrow> (r, bs @ cs, s''))"
  by pat_completeness auto
termination
  by (relation "measure (\<lambda>(_, _, n). n)") auto

declare psc_sendall.simps [simp del] psc_recvall.simps [simp del]

text \<open>
  \<open>psc_recvskip\<close> reads into a buffer of 128 bytes on its stack. The result is \<open>None\<close> when the
  bytes received run past that buffer. The loop ends when at most 128 bytes are left or when a
  chunk failed; the code then asks for the remaining \<open>len\<close> bytes in either case.
\<close>

abbreviation (input) SKIP_BUF :: nat where "SKIP_BUF \<equiv> 128"

definition recv_into :: "'s recv_fn \<Rightarrow> 's \<Rightarrow> nat \<Rightarrow> nat \<Rightarrow> (errno option \<times> 's) option" where
  "recv_into rcv s cap n =
     (case psc_recvall rcv s n of (r, bs, s') \<Rightarrow> if length bs \<le> cap then Some (r, s') else None)"

function psc_recvskip :: "'s recv_fn \<Rightarrow> 's \<Rightarrow> nat \<Rightarrow> (errno option \<times> 's) option" where
  "psc_recvskip rcv s len =
     (if len > SKIP_BUF then
        (case recv_into rcv s SKIP_BUF SKIP_BUF of
           None \<Rightarrow> None
         | Some (None, s') \<Rightarrow> psc_recvskip rcv s' (len - SKIP_BUF)
         | Some (Some e, s') \<Rightarrow> recv_into rcv s' SKIP_BUF len)
      else recv_into rcv s SKIP_BUF len)"
  by pat_completeness auto
termination
  by (relation "measure (\<lambda>(_, _, len). len)") auto

declare psc_recvskip.simps [simp del]

section \<open>Headers\<close>

text \<open>\<open>struct psc_header\<close>: two letters, the message id and the body length, in network order.\<close>

record psc_header =
  hP :: u8
  hS :: u8
  mid :: u16
  mlen :: u32

text \<open>The bytes of the packed structure \<open>psc_header_buf\<close> as the target lays them out.\<close>

definition header_bytes :: "psc_header \<Rightarrow> u8 list" where
  "header_bytes h = [hP h, hS h] @ le16 (mid h) @ le32 (mlen h)"

definition header_of_bytes :: "u8 list \<Rightarrow> psc_header option" where
  "header_of_bytes bs = (case bs of
     [p, s, m0, m1, l0, l1, l2, l3] \<Rightarrow>
       Some \<lparr>hP = p, hS = s, mid = join16 m0 m1, mlen = join32 l0 l1 l2 l3\<rparr>
   | _ \<Rightarrow> None)"

abbreviation (input) CHR_P :: u8 where "CHR_P \<equiv> 0x50"
abbreviation (input) CHR_S :: u8 where "CHR_S \<equiv> 0x53"

definition make_header :: "u16 \<Rightarrow> u32 \<Rightarrow> psc_header" where
  "make_header msgid msglen =
     \<lparr>hP = CHR_P, hS = CHR_S, mid = htons msgid, mlen = htonl msglen\<rparr>"

definition psc_sendhead :: "'s send_fn \<Rightarrow> 's \<Rightarrow> u16 \<Rightarrow> u32 \<Rightarrow> errno option \<times> 's" where
  "psc_sendhead send s msgid msglen = psc_sendall send s (header_bytes (make_header msgid msglen))"

section \<open>Messages\<close>

text \<open>The body is \<open>msglen\<close> bytes from \<open>buf\<close>; here \<open>buf\<close> is those bytes.\<close>

definition psc_sendmsg :: "'s send_fn \<Rightarrow> 's \<Rightarrow> u16 \<Rightarrow> u8 list \<Rightarrow> errno option \<times> 's" where
  "psc_sendmsg send s msgid buf =
     (case psc_sendhead send s msgid (of_nat (length buf)) of
        (Some e, s') \<Rightarrow> (Some e, s')
      | (None, s') \<Rightarrow> psc_sendall send s' buf)"

definition psc_sendmsgsingle :: "'s send_fn \<Rightarrow> 's \<Rightarrow> u16 \<Rightarrow> u32 \<Rightarrow> u8 list \<Rightarrow> errno option \<times> 's" where
  "psc_sendmsgsingle send s msgid regid buf =
     (case psc_sendhead send s msgid (of_nat (length buf) + 4) of
        (Some e, s') \<Rightarrow> (Some e, s')
      | (None, s') \<Rightarrow>
         (case psc_sendall send s' (le32 (htonl regid)) of
            (Some e, s'') \<Rightarrow> (Some e, s'')
          | (None, s'') \<Rightarrow> psc_sendall send s'' buf))"

definition psc_recvhead :: "'s recv_fn \<Rightarrow> 's \<Rightarrow> (errno + u16 \<times> u32) \<times> 's" where
  "psc_recvhead rcv s =
     (case psc_recvall rcv s 8 of
        (Some e, _, s') \<Rightarrow> (Inl e, s')
      | (None, bs, s') \<Rightarrow>
         (case header_of_bytes bs of
            None \<Rightarrow> (Inl EIO, s')
          | Some h \<Rightarrow> if hP h \<noteq> CHR_P \<or> hS h \<noteq> CHR_S then (Inl EIO, s')
                      else (Inr (ntohs (mid h), ntohl (mlen h)), s')))"

text \<open>
  \<open>psc_recvmsg\<close> returns the code, the id and length it stored through the pointers (only when it
  reached the end) and the buffer. \<open>None\<close>: the receive buffer or the skip buffer overflowed.
\<close>

record recv_result =
  rr_ret :: "errno option"
  rr_msg :: "(u16 \<times> nat) option"
  rr_buf :: "u8 list"

definition psc_recvmsg :: "'s recv_fn \<Rightarrow> 's \<Rightarrow> u8 list \<Rightarrow> nat \<Rightarrow> (recv_result \<times> 's) option" where
  "psc_recvmsg rcv s buf maxlen =
     (case psc_recvhead rcv s of
        (Inl e, s') \<Rightarrow> Some (\<lparr>rr_ret = Some e, rr_msg = None, rr_buf = buf\<rparr>, s')
      | (Inr (m, ml), s') \<Rightarrow>
         (let rlen = (if unat ml > maxlen then maxlen else unat ml) in
          case psc_recvall rcv s' rlen of (r, bs, s'') \<Rightarrow>
            (case fill buf bs of
               None \<Rightarrow> None
             | Some buf' \<Rightarrow>
                 if r \<noteq> None then Some (\<lparr>rr_ret = r, rr_msg = None, rr_buf = buf'\<rparr>, s'')
                 else if rlen < unat ml then
                   (case psc_recvskip rcv s'' (unat ml - rlen) of
                      None \<Rightarrow> None
                    | Some (r', s3) \<Rightarrow>
                        Some (\<lparr>rr_ret = r', rr_msg = Some (m, rlen), rr_buf = buf'\<rparr>, s3))
                 else Some (\<lparr>rr_ret = None, rr_msg = Some (m, rlen), rr_buf = buf'\<rparr>, s''))))"

section \<open>What the code relies on\<close>

text \<open>
  The documented behaviour of a stream socket. \<open>inp\<close> is what the peer has sent and the code has not
  yet read, \<open>out\<close> what the code has handed over: a successful \<open>recv\<close> delivers a prefix of the input
  no longer than asked for, \<open>send\<close> takes a prefix of the buffer, and a failing call does neither.
\<close>

definition recv_ok :: "'s recv_fn \<Rightarrow> ('s \<Rightarrow> u8 list) \<Rightarrow> bool" where
  "recv_ok rcv inp \<longleftrightarrow> (\<forall>s n. case rcv s n of
     (RxGot bs, s') \<Rightarrow> length bs \<le> n \<and> inp s = bs @ inp s'
   | (RxErr e, s') \<Rightarrow> inp s' = inp s)"

definition send_ok :: "'s send_fn \<Rightarrow> ('s \<Rightarrow> u8 list) \<Rightarrow> bool" where
  "send_ok send out \<longleftrightarrow> (\<forall>s buf. case send s buf of
     (TxSent n, s') \<Rightarrow> n \<le> length buf \<and> out s' = out s @ take n buf
   | (TxErr e, s') \<Rightarrow> out s' = out s)"

text \<open>A connection that works: while there is input a \<open>recv\<close> delivers some of it.\<close>

definition recv_live :: "'s recv_fn \<Rightarrow> ('s \<Rightarrow> u8 list) \<Rightarrow> bool" where
  "recv_live rcv inp \<longleftrightarrow>
     (\<forall>s n. inp s \<noteq> [] \<longrightarrow> 0 < n \<longrightarrow> (\<exists>bs s'. rcv s n = (RxGot bs, s') \<and> bs \<noteq> []))"

definition send_live :: "'s send_fn \<Rightarrow> bool" where
  "send_live send \<longleftrightarrow>
     (\<forall>s buf. buf \<noteq> [] \<longrightarrow> (\<exists>n s'. send s buf = (TxSent n, s') \<and> 0 < n))"

lemma recv_okD:
  assumes "recv_ok rcv inp"
  shows "rcv s n = (RxGot bs, s') \<Longrightarrow> length bs \<le> n \<and> inp s = bs @ inp s'"
    and "rcv s n = (RxErr e, s') \<Longrightarrow> inp s' = inp s"
  using assms[unfolded recv_ok_def, rule_format, of s n] by simp_all

lemma send_okD:
  assumes "send_ok send out"
  shows "send s buf = (TxSent n, s') \<Longrightarrow> n \<le> length buf \<and> out s' = out s @ take n buf"
    and "send s buf = (TxErr e, s') \<Longrightarrow> out s' = out s"
  using assms[unfolded send_ok_def, rule_format, of s buf] by simp_all

section \<open>Whole buffers\<close>

lemma psc_recvall_stored:
  assumes ok: "recv_ok rcv inp"
  shows "psc_recvall rcv s n = (r, bs, s') \<Longrightarrow>
    inp s = bs @ inp s' \<and> length bs \<le> n \<and> (r = None \<longrightarrow> length bs = n)"
proof (induction n arbitrary: s r bs s' rule: less_induct)
  case (less n)
  show ?case
  proof (cases "n = 0")
    case True
    with less.prems show ?thesis by (simp add: psc_recvall.simps)
  next
    case False
    obtain x t where x: "rcv s n = (x, t)" by fastforce
    show ?thesis
    proof (cases x)
      case (RxErr e)
      with less.prems False x show ?thesis
        using recv_okD(2)[OF ok] by (auto simp: psc_recvall.simps[of rcv s n])
    next
      case (RxGot cs)
      obtain r1 ds t1 where rest: "psc_recvall rcv t (n - length cs) = (r1, ds, t1)"
        by (metis prod_cases3)
      from x RxGot have cs: "length cs \<le> n" "inp s = cs @ inp t"
        using recv_okD(1)[OF ok] by auto
      have "cs \<noteq> [] \<Longrightarrow> inp t = ds @ inp t1 \<and> length ds \<le> n - length cs
          \<and> (r1 = None \<longrightarrow> length ds = n - length cs)"
        using less.IH[OF _ rest] False by simp
      with less.prems False x RxGot rest cs show ?thesis
        by (auto simp: psc_recvall.simps[of rcv s n] split: if_splits)
    qed
  qed
qed

text \<open>On a working connection it succeeds when enough input is there.\<close>

lemma psc_recvall_live:
  assumes ok: "recv_ok rcv inp" and live: "recv_live rcv inp"
  shows "n \<le> length (inp s) \<Longrightarrow>
    \<exists>s'. psc_recvall rcv s n = (None, take n (inp s), s') \<and> inp s' = drop n (inp s)"
proof (induction n arbitrary: s rule: less_induct)
  case (less n)
  show ?case
  proof (cases "n = 0")
    case True
    then show ?thesis by (simp add: psc_recvall.simps)
  next
    case False
    with less.prems have "inp s \<noteq> []" by auto
    then obtain cs t where cs: "rcv s n = (RxGot cs, t)" "cs \<noteq> []"
      using live False unfolding recv_live_def by blast
    then have split: "length cs \<le> n" "inp s = cs @ inp t"
      using recv_okD(1)[OF ok] by auto
    then have "n - length cs \<le> length (inp t)" "n - length cs < n"
      using less.prems cs False by auto
    then obtain t' where "psc_recvall rcv t (n - length cs)
        = (None, take (n - length cs) (inp t), t') \<and> inp t' = drop (n - length cs) (inp t)"
      using less.IH by blast
    with cs split False show ?thesis
      by (simp add: psc_recvall.simps[of rcv s n])
  qed
qed

lemma psc_sendall_taken:
  assumes ok: "send_ok send out"
  shows "psc_sendall send s buf = (r, s') \<Longrightarrow>
    \<exists>k \<le> length buf. out s' = out s @ take k buf \<and> (r = None \<longrightarrow> k = length buf)"
proof (induction buf arbitrary: s r s' rule: length_induct)
  case (1 buf)
  show ?case
  proof (cases "buf = []")
    case True
    with "1.prems" show ?thesis by (simp add: psc_sendall.simps)
  next
    case False
    obtain x t where x: "send s buf = (x, t)" by fastforce
    show ?thesis
    proof (cases x)
      case (TxErr e)
      with "1.prems" False x show ?thesis
        using send_okD(2)[OF ok] by (auto simp: psc_sendall.simps[of send s buf])
    next
      case (TxSent n)
      from x TxSent have n: "n \<le> length buf" "out t = out s @ take n buf"
        using send_okD(1)[OF ok] by auto
      show ?thesis
      proof (cases "n = 0")
        case True
        with "1.prems" False x TxSent n show ?thesis
          by (auto simp: psc_sendall.simps[of send s buf])
      next
        case nz: False
        with "1.prems" False x TxSent have run: "psc_sendall send t (drop n buf) = (r, s')"
          by (simp add: psc_sendall.simps[of send s buf])
        from nz False have "length (drop n buf) < length buf" by simp
        with "1.IH" run obtain k where k: "k \<le> length (drop n buf)"
          "out s' = out t @ take k (drop n buf)" "r = None \<longrightarrow> k = length (drop n buf)" by blast
        with n show ?thesis
          by (intro exI[of _ "n + k"]) (auto simp: take_add)
      qed
    qed
  qed
qed

lemma psc_sendall_returns:
  assumes live: "send_live send"
  shows "\<exists>s'. psc_sendall send s buf = (None, s')"
proof (induction buf arbitrary: s rule: length_induct)
  case (1 buf)
  show ?case
  proof (cases "buf = []")
    case True
    then show ?thesis by (simp add: psc_sendall.simps)
  next
    case False
    then obtain n t where n: "send s buf = (TxSent n, t)" "0 < n"
      using live unfolding send_live_def by blast
    with False have "length (drop n buf) < length buf" by simp
    with "1.IH" obtain s' where "psc_sendall send t (drop n buf) = (None, s')" by blast
    with n False show ?thesis by (simp add: psc_sendall.simps[of send s buf])
  qed
qed

lemma psc_sendall_live:
  assumes "send_ok send out" "send_live send"
  shows "\<exists>s'. psc_sendall send s buf = (None, s') \<and> out s' = out s @ buf"
  using psc_sendall_returns[OF assms(2)] psc_sendall_taken[OF assms(1)] by fastforce

text \<open>What no call of \<open>send\<close> changes, sending a whole buffer does not change.\<close>

lemma psc_sendall_keeps:
  assumes keeps: "\<And>s b. f (snd (send s b)) = f s"
  shows "f (snd (psc_sendall send s buf)) = f s"
proof (induction buf arbitrary: s rule: length_induct)
  case (1 buf)
  obtain x t where x: "send s buf = (x, t)" by fastforce
  then have t: "f t = f s" using keeps[of s buf] by simp
  show ?case
  proof (cases "\<exists>n. x = TxSent n \<and> n \<noteq> 0 \<and> buf \<noteq> []")
    case True
    then obtain n where n: "x = TxSent n" "n \<noteq> 0" "buf \<noteq> []" by blast
    then have "f (snd (psc_sendall send t (drop n buf))) = f t" using "1.IH" by simp
    with n x t show ?thesis by (simp add: psc_sendall.simps[of send s buf])
  next
    case False
    with x t show ?thesis by (cases x) (auto simp: psc_sendall.simps[of send s buf])
  qed
qed

section \<open>Headers and frames\<close>

lemma header_bytes_length [simp]: "length (header_bytes h) = 8"
  by (simp add: header_bytes_def)

lemma header_of_bytes_only:
  assumes "header_of_bytes bs = Some h"
  shows "bs = header_bytes h"
proof -
  from assms obtain p s m0 m1 l0 l1 l2 l3 where "bs = [p, s, m0, m1, l0, l1, l2, l3]"
    unfolding header_of_bytes_def by (auto split: list.splits)
  with assms show ?thesis
    by (auto simp: header_of_bytes_def header_bytes_def le16_def le32_def)
qed

interpretation hdr: codec header_bytes header_of_bytes 8
  by unfold_locales
    (simp_all add: header_of_bytes_only, simp add: header_of_bytes_def header_bytes_def le16_def le32_def)

text \<open>A frame is a message as the peer sees it: letters, id and length in network order, body.\<close>

definition frame :: "u16 \<times> u8 list \<Rightarrow> u8 list" where
  "frame = (\<lambda>(msgid, body). [CHR_P, CHR_S] @ be16 msgid @ be32 (of_nat (length body)) @ body)"

definition msg_ok :: "u16 \<times> u8 list \<Rightarrow> bool" where
  "msg_ok = (\<lambda>(msgid, body). length body < 2 ^ 32)"

lemma frame_header:
  "frame (msgid, body) = header_bytes (make_header msgid (of_nat (length body))) @ body"
  by (simp add: frame_def header_bytes_def make_header_def byte_simps)

lemma make_header_inject: "make_header i n = make_header j m \<longleftrightarrow> i = j \<and> n = m"
  unfolding make_header_def by (metis htonl_htonl htons_htons psc_header.select_convs(3,4))

lemma unat_len: "n < 2 ^ 32 \<Longrightarrow> unat (of_nat n :: u32) = n"
  by (simp add: unat_of_nat)

lemma of_nat_len_inject:
  "m < 2 ^ 32 \<Longrightarrow> n < 2 ^ 32 \<Longrightarrow> (of_nat m :: u32) = of_nat n \<longleftrightarrow> m = n"
  by (metis unat_len)

interpretation frames: prefix_code frame msg_ok
proof unfold_locales
  fix x y :: "u16 \<times> u8 list" and r s
  assume "msg_ok x" "msg_ok y" "frame x @ r = frame y @ s"
  then show "x = y \<and> r = s"
    by (cases x; cases y)
      (auto simp: msg_ok_def frame_header hdr.enc_append_inject make_header_inject of_nat_len_inject)
qed (simp add: frame_def split: prod.split)

section \<open>Whole messages\<close>

lemma psc_sendmsg_taken:
  assumes ok: "send_ok send out" and run: "psc_sendmsg send s msgid buf = (r, s')"
  shows "\<exists>k \<le> length (frame (msgid, buf)).
    out s' = out s @ take k (frame (msgid, buf)) \<and> (r = None \<longrightarrow> k = length (frame (msgid, buf)))"
proof -
  let ?h = "header_bytes (make_header msgid (of_nat (length buf)))"
  obtain r1 t where head: "psc_sendall send s ?h = (r1, t)" by fastforce
  then obtain k where k: "k \<le> 8" "out t = out s @ take k ?h" "r1 = None \<longrightarrow> k = 8"
    using psc_sendall_taken[OF ok head] by auto
  show ?thesis
  proof (cases r1)
    case (Some e)
    with run head have "r = Some e" "s' = t" by (auto simp: psc_sendmsg_def psc_sendhead_def)
    with k show ?thesis by (intro exI[of _ k]) (simp add: frame_header)
  next
    case None
    with run head have "psc_sendall send t buf = (r, s')" by (simp add: psc_sendmsg_def psc_sendhead_def)
    then obtain j where "j \<le> length buf" "out s' = out t @ take j buf" "r = None \<longrightarrow> j = length buf"
      using psc_sendall_taken[OF ok] by blast
    with k None show ?thesis by (intro exI[of _ "8 + j"]) (simp add: frame_header)
  qed
qed

lemma psc_sendmsg_keeps:
  assumes keeps: "\<And>s b. f (snd (send s b)) = f s"
  shows "f (snd (psc_sendmsg send s msgid buf)) = f s"
  using psc_sendall_keeps[of f send, OF keeps]
  by (auto simp: psc_sendmsg_def psc_sendhead_def split: prod.split option.split) (metis snd_conv)+

lemma psc_sendmsg_returns:
  assumes "send_live send"
  shows "\<exists>s'. psc_sendmsg send s msgid buf = (None, s')"
  using psc_sendall_returns[OF assms, of s "header_bytes (make_header msgid (of_nat (length buf)))"]
    psc_sendall_returns[OF assms, of _ buf]
  by (auto simp: psc_sendmsg_def psc_sendhead_def)

lemma psc_sendmsg_live:
  assumes "send_ok send out" "send_live send"
  shows "\<exists>s'. psc_sendmsg send s msgid buf = (None, s') \<and> out s' = out s @ frame (msgid, buf)"
  using psc_sendmsg_returns[OF assms(2), of s msgid buf] psc_sendmsg_taken[OF assms(1)] by fastforce

lemma recv_into_live:
  assumes "recv_ok rcv inp" "recv_live rcv inp" "n \<le> length (inp s)" "n \<le> cap"
  shows "\<exists>s'. recv_into rcv s cap n = Some (None, s') \<and> inp s' = drop n (inp s)"
  using psc_recvall_live[OF assms(1-3)] assms(3,4) by (auto simp: recv_into_def)

lemma psc_recvskip_live:
  assumes ok: "recv_ok rcv inp" and live: "recv_live rcv inp"
  shows "len \<le> length (inp s) \<Longrightarrow>
    \<exists>s'. psc_recvskip rcv s len = Some (None, s') \<and> inp s' = drop len (inp s)"
proof (induction len arbitrary: s rule: less_induct)
  case (less len)
  show ?case
  proof (cases "len > SKIP_BUF")
    case False
    then show ?thesis
      using recv_into_live[OF ok live less.prems] by (simp add: psc_recvskip.simps[of rcv s len])
  next
    case True
    with less.prems obtain t where t: "recv_into rcv s SKIP_BUF SKIP_BUF = Some (None, t)"
      "inp t = drop SKIP_BUF (inp s)"
      using recv_into_live[OF ok live, of SKIP_BUF s SKIP_BUF] by auto
    with True less.prems have "len - SKIP_BUF < len" "len - SKIP_BUF \<le> length (inp t)" by auto
    then obtain s' where "psc_recvskip rcv t (len - SKIP_BUF) = Some (None, s')"
      "inp s' = drop (len - SKIP_BUF) (inp t)"
      using less.IH by blast
    with True t show ?thesis by (simp add: psc_recvskip.simps[of rcv s len])
  qed
qed

lemma psc_recvhead_frame:
  assumes ok: "recv_ok rcv inp" and live: "recv_live rcv inp"
    and inp: "inp s = frame (msgid, body) @ rest"
  shows "\<exists>s'. psc_recvhead rcv s = (Inr (msgid, of_nat (length body)), s') \<and> inp s' = body @ rest"
proof -
  let ?h = "make_header msgid (of_nat (length body))"
  have "8 \<le> length (inp s)" using inp by (simp add: frame_header)
  then obtain s' where "psc_recvall rcv s 8 = (None, header_bytes ?h, s')" "inp s' = body @ rest"
    using psc_recvall_live[OF ok live, of 8 s] inp by (auto simp: frame_header)
  then show ?thesis
    by (simp add: psc_recvhead_def hdr.dec_enc) (simp add: make_header_def)
qed

lemma psc_recvmsg_frame:
  assumes ok: "recv_ok rcv inp" and live: "recv_live rcv inp"
    and inp: "inp s = frame (msgid, body) @ rest"
    and len: "length body < 2 ^ 32" and cap: "maxlen \<le> length buf"
  shows "\<exists>s'. psc_recvmsg rcv s buf maxlen =
      Some (\<lparr>rr_ret = None, rr_msg = Some (msgid, min (length body) maxlen),
             rr_buf = take maxlen body @ drop (min (length body) maxlen) buf\<rparr>, s')
    \<and> inp s' = rest"
proof -
  let ?n = "length body"
  obtain t where t: "psc_recvhead rcv s = (Inr (msgid, of_nat ?n), t)" "inp t = body @ rest"
    using psc_recvhead_frame[OF ok live inp] by blast
  have un: "unat (of_nat ?n :: u32) = ?n" using len by (rule unat_len)
  define rlen where "rlen = min ?n maxlen"
  have "rlen \<le> length (inp t)" using t by (simp add: rlen_def)
  then obtain u where u: "psc_recvall rcv t rlen = (None, take rlen body, u)"
    "inp u = drop rlen body @ rest"
    using psc_recvall_live[OF ok live, of rlen t] t by (auto simp: rlen_def)
  have fill: "fill buf (take rlen body) = Some (take maxlen body @ drop rlen buf)"
    using cap by (simp add: fill_def rlen_def min_def)
  show ?thesis
  proof (cases "rlen < ?n")
    case False
    with t u un fill cap show ?thesis
      by (simp add: psc_recvmsg_def Let_def rlen_def min_def split: if_splits)
  next
    case True
    have "?n - rlen \<le> length (inp u)" using u by simp
    then obtain v where "psc_recvskip rcv u (?n - rlen) = Some (None, v)"
      "inp v = drop (?n - rlen) (inp u)"
      using psc_recvskip_live[OF ok live] by blast
    with True t u un fill cap show ?thesis
      by (simp add: psc_recvmsg_def Let_def rlen_def min_def split: if_splits)
  qed
qed

text \<open>What the two buffers see whatever the connection does.\<close>

lemma psc_recvall_bounded: "recv_ok rcv inp \<Longrightarrow> psc_recvall rcv s n = (r, bs, s') \<Longrightarrow> length bs \<le> n"
  by (drule (1) psc_recvall_stored) simp

lemma recv_into_fits: "recv_ok rcv inp \<Longrightarrow> n \<le> cap \<Longrightarrow> recv_into rcv s cap n \<noteq> None"
  by (auto simp: recv_into_def split: prod.split dest: psc_recvall_bounded)

lemma psc_recvmsg_safe:
  assumes ok: "recv_ok rcv inp" and cap: "maxlen \<le> length buf"
  shows "case psc_recvmsg rcv s buf maxlen of
      None \<Rightarrow> (\<exists>m ml t. psc_recvhead rcv s = (Inr (m, ml), t) \<and> maxlen + SKIP_BUF < unat ml)
    | Some (rr, s') \<Rightarrow> length (rr_buf rr) = length buf
        \<and> (\<forall>m n. rr_msg rr = Some (m, n) \<longrightarrow> n \<le> maxlen)
        \<and> (rr_ret rr = None \<longrightarrow> rr_msg rr \<noteq> None)"
proof (cases "psc_recvhead rcv s")
  case (Pair h t)
  show ?thesis
  proof (cases h)
    case (Inl e)
    with Pair show ?thesis by (simp add: psc_recvmsg_def)
  next
    case (Inr hd)
    obtain m ml where hd: "hd = (m, ml)" by fastforce
    define rlen where "rlen = (if unat ml > maxlen then maxlen else unat ml)"
    obtain r bs u where all: "psc_recvall rcv t rlen = (r, bs, u)" by (metis prod_cases3)
    have rlen: "rlen \<le> maxlen" by (simp add: rlen_def)
    have "length bs \<le> length buf"
      using psc_recvall_bounded[OF ok all] rlen cap by simp
    then obtain buf' where buf': "fill buf bs = Some buf'" "length buf' = length buf"
      by (simp add: fill_def)
    have skip: "psc_recvskip rcv u (unat ml - rlen) = None \<Longrightarrow> maxlen + SKIP_BUF < unat ml"
      if "rlen < unat ml"
      using that recv_into_fits[OF ok, of "unat ml - rlen" SKIP_BUF u]
      by (auto simp: rlen_def psc_recvskip.simps[of rcv u] split: if_splits)
    show ?thesis
      using Pair Inr hd all buf' rlen skip
      by (auto simp: psc_recvmsg_def Let_def simp flip: rlen_def split: option.splits)
  qed
qed

section \<open>Sockets for the witnesses\<close>

text \<open>A connection that moves at most \<open>k\<close> bytes per call.\<close>

definition chunk_recv :: "nat \<Rightarrow> u8 list recv_fn" where
  "chunk_recv k s n = (RxGot (take (min k n) s), drop (min k n) s)"

definition chunk_send :: "nat \<Rightarrow> u8 list send_fn" where
  "chunk_send k s buf = (TxSent (min k (length buf)), s @ take (min k (length buf)) buf)"

lemma chunk_recv_ok: "recv_ok (chunk_recv k) (\<lambda>s. s)"
  by (auto simp: recv_ok_def chunk_recv_def)

lemma chunk_recv_live: "0 < k \<Longrightarrow> recv_live (chunk_recv k) (\<lambda>s. s)"
  by (simp add: recv_live_def chunk_recv_def)

lemma chunk_send_ok: "send_ok (chunk_send k) (\<lambda>s. s)"
  by (simp add: send_ok_def chunk_send_def)

lemma chunk_send_live: "0 < k \<Longrightarrow> send_live (chunk_send k)"
  by (simp add: send_live_def chunk_send_def)

text \<open>A connection that follows a script of results; a delivery may be split over calls.\<close>

fun script_recv :: "rx list recv_fn" where
  "script_recv [] n = (RxGot [], [])"
| "script_recv (RxErr e # xs) n = (RxErr e, xs)"
| "script_recv (RxGot bs # xs) n =
     (RxGot (take n bs), if length bs \<le> n then xs else RxGot (drop n bs) # xs)"

fun script_inp :: "rx list \<Rightarrow> u8 list" where
  "script_inp [] = []"
| "script_inp (RxErr e # xs) = script_inp xs"
| "script_inp (RxGot bs # xs) = bs @ script_inp xs"

lemma script_recv_ok: "recv_ok script_recv script_inp"
  unfolding recv_ok_def
proof (intro allI)
  fix s n
  show "case script_recv s n of (RxErr e, s') \<Rightarrow> script_inp s' = script_inp s
    | (RxGot bs, s') \<Rightarrow> length bs \<le> n \<and> script_inp s = bs @ script_inp s'"
    by (induction s n rule: script_recv.induct) auto
qed

section \<open>Properties\<close>

text \<open>
  Property C9 (roundtrip): a message sent by \<open>psc_sendmsg\<close> is received by \<open>psc_recvmsg\<close> with its id
  and its body, however the two connections cut the stream into pieces, and the stream is left at
  the next message. A body longer than the receive buffer arrives truncated, with the rest skipped
  and the bytes of the buffer after it untouched.
\<close>

theorem recvmsg_sendmsg:
  assumes "send_ok send out" "send_live send" "recv_ok rcv inp" "recv_live rcv inp"
    and "psc_sendmsg send s msgid body = (r, s')" "out s = []"
    and "inp t = out s' @ rest" "length body < 2 ^ 32" "maxlen \<le> length buf"
  shows "r = None \<and> (\<exists>t'. psc_recvmsg rcv t buf maxlen =
      Some (\<lparr>rr_ret = None, rr_msg = Some (msgid, min (length body) maxlen),
             rr_buf = take maxlen body @ drop (min (length body) maxlen) buf\<rparr>, t')
    \<and> inp t' = rest)"
proof -
  from psc_sendmsg_live[OF assms(1,2), of s msgid body] assms(5,6)
  have "r = None" "out s' = frame (msgid, body)" by auto
  with psc_recvmsg_frame[OF assms(3,4) _ assms(8,9), of t msgid rest] assms(7)
  show ?thesis by simp
qed

theorem recvmsg_sendmsg_witness:
  "\<exists>t'. psc_recvmsg (chunk_recv 3) (snd (psc_sendmsg (chunk_send 5) [] 1 [10, 20, 30]) @ [99]) [7, 8, 9, 7, 8] 2 =
      Some (\<lparr>rr_ret = None, rr_msg = Some (1, 2), rr_buf = [10, 20, 9, 7, 8]\<rparr>, t') \<and> t' = [99]"
proof -
  obtain r s' where run: "psc_sendmsg (chunk_send 5) [] 1 [10, 20, 30] = (r, s')" by fastforce
  have "\<exists>t'. psc_recvmsg (chunk_recv 3) (s' @ [99]) [7, 8, 9, 7, 8] 2 =
      Some (\<lparr>rr_ret = None, rr_msg = Some (1, min (length [10, 20, 30 :: u8]) 2),
        rr_buf = take 2 [10, 20, 30] @ drop (min (length [10, 20, 30 :: u8]) 2) [7, 8, 9, 7, 8]\<rparr>, t')
      \<and> t' = [99]"
    using recvmsg_sendmsg[OF chunk_send_ok[of 5] chunk_send_live[of 5] chunk_recv_ok[of 3]
        chunk_recv_live[of 3] run, of "s' @ [99]" "[99]" 2 "[7, 8, 9, 7, 8]"] by simp
  with run show ?thesis by simp
qed

text \<open>
  The framing is unambiguous. Two sequences of messages that put the same
  bytes on the wire are the same sequence.
\<close>

theorem framing_unambiguous:
  assumes "list_all msg_ok xs" "list_all msg_ok ys" "concat (map frame xs) = concat (map frame ys)"
  shows "xs = ys"
  using assms by (rule frames.stream_inject)

theorem framing_unambiguous_witness: "[(1, [5]), (2, [])] = [(1 :: u16, [5 :: u8]), (2, [])]"
  by (rule framing_unambiguous) (simp_all add: msg_ok_def)

text \<open>
  Whatever goes wrong, what \<open>psc_sendmsg\<close> put on the wire is a prefix of the
  frame, and it reports success only when that prefix is the whole frame.
\<close>

theorem sendmsg_prefix:
  assumes "send_ok send out" "psc_sendmsg send s msgid buf = (r, s')"
  shows "\<exists>k. out s' = out s @ take k (frame (msgid, buf)) \<and> (r = None \<longrightarrow> k = length (frame (msgid, buf)))"
  using psc_sendmsg_taken[OF assms] by blast

theorem sendmsg_prefix_witness:
  "\<exists>k. snd (psc_sendmsg (chunk_send 0) [] 1 [9]) = take k (frame (1, [9]))"
proof -
  obtain r s' where "psc_sendmsg (chunk_send 0) [] 1 [9] = (r, s')" by fastforce
  with sendmsg_prefix[OF chunk_send_ok this] show ?thesis by auto
qed



text \<open>
  Property C18 (error): skipping an oversized message is not safe. When a chunk of 128 bytes fails,
  the loop ends with more than 128 bytes to go and the final call still asks for all of them: if
  the connection then delivers more than 128, they are written past the end of the stack buffer,
  and the error of the chunk is lost.
\<close>

theorem recvskip_overflows:
  assumes "recv_ok rcv inp" "SKIP_BUF < len" "psc_recvall rcv s SKIP_BUF = (Some e, bs, t)"
    and "rcv t len = (RxGot cs, u)" "SKIP_BUF < length cs"
  shows "psc_recvskip rcv s len = None"
proof -
  have "length bs \<le> SKIP_BUF"
    using psc_recvall_stored[OF assms(1,3)] by simp
  moreover obtain r ds v where "psc_recvall rcv t len = (r, ds, v)" "length cs \<le> length ds"
  proof -
    obtain r ds v where "psc_recvall rcv u (len - length cs) = (r, ds, v)" by (metis prod_cases3)
    then have "psc_recvall rcv t len = (r, cs @ ds, v)"
      using assms(2,4,5) by (auto simp: psc_recvall.simps[of rcv t len])
    then show thesis using that by simp
  qed
  ultimately show ?thesis
    using assms(2,3,5) by (simp add: psc_recvskip.simps[of rcv s len] recv_into_def)
qed

theorem recvskip_overflows_witness:
  "psc_recvskip script_recv [RxErr EIO, RxGot (replicate 200 0)] 200 = None"
proof (rule recvskip_overflows[OF script_recv_ok])
  show "psc_recvall script_recv [RxErr EIO, RxGot (replicate 200 0)] SKIP_BUF
      = (Some EIO, [], [RxGot (replicate 200 0)])"
    by (simp add: psc_recvall.simps)
  show "script_recv [RxGot (replicate 200 0)] 200 = (RxGot (replicate 200 0), [])" by simp
qed simp_all

text \<open>
  A stream that does not start with the letters \<^verbatim>\<open>PS\<close> is refused with \<open>EIO\<close>
  after its eight header bytes, and the receive buffer is as it was.
\<close>

theorem recvmsg_bad_letters:
  assumes "recv_ok rcv inp" "recv_live rcv inp"
    and "inp s = p # q # hdr6 @ rest" "length hdr6 = 6" "p \<noteq> CHR_P \<or> q \<noteq> CHR_S"
  shows "\<exists>s'. psc_recvmsg rcv s buf maxlen =
      Some (\<lparr>rr_ret = Some EIO, rr_msg = None, rr_buf = buf\<rparr>, s') \<and> inp s' = rest"
proof -
  obtain s' where s': "psc_recvall rcv s 8 = (None, p # q # hdr6, s')" "inp s' = rest"
    using psc_recvall_live[OF assms(1,2), of 8 s] assms(3,4) by auto
  moreover have "\<exists>h. header_of_bytes (p # q # hdr6) = Some h \<and> hP h = p \<and> hS h = q"
    using assms(4) by (auto simp: header_of_bytes_def numeral_eq_Suc length_Suc_conv)
  ultimately show ?thesis
    using assms(5) by (auto simp: psc_recvmsg_def psc_recvhead_def)
qed

theorem recvmsg_bad_letters_witness:
  "\<exists>s'. psc_recvmsg (chunk_recv 3) [0x50, 0x54, 0, 1, 0, 0, 0, 0, 5] [9] 1 =
      Some (\<lparr>rr_ret = Some EIO, rr_msg = None, rr_buf = [9]\<rparr>, s') \<and> s' = [5]"
  by (rule recvmsg_bad_letters[OF chunk_recv_ok chunk_recv_live,
        of _ _ "0x50" "0x54" "[0, 1, 0, 0, 0, 0]"]) simp_all

end
