(* ===== verification/Client.thy ===== *)
theory Client imports Control Psc_Msg begin

text \<open>
  One client connection: the receive loop of \<open>handle_client\<close> (\<^verbatim>\<open>listener.c\<close>) with the receive callback
  \<open>client_msg\<close> (\<^verbatim>\<open>main.c\<close>). A connection owns its socket and its receive buffer, which is not
  cleared between messages; the access counter and the PL are shared with the rest of the program.
\<close>

section \<open>The receive callback\<close>

abbreviation (input) PSC_MAX_RX_MSG_LEN :: nat where "PSC_MAX_RX_MSG_LEN \<equiv> 200000"

definition RXBUF_LEN :: nat where
  "RXBUF_LEN = 8 + PSC_MAX_RX_MSG_LEN"

record app =
  ioc_access_count :: u32
  platform :: world

text \<open>Count the access, blink the LED, and act on the two message ids. \<open>None\<close>: \<open>reg_settings\<close> would
  read past the buffer.\<close>

definition blink :: "unit io" where
  "blink = do { Xil_Out32 (PL IOC_ACCESS_REG) 1; Xil_Out32 (PL IOC_ACCESS_REG) 0 }"

definition client_msg :: "u16 \<Rightarrow> nat \<Rightarrow> u8 list \<Rightarrow> app \<Rightarrow> app option" where
  "client_msg msgid msglen msg a =
     (let a1 = \<lparr>ioc_access_count = ioc_access_count a + 1,
                platform = snd (run_state blink (platform a))\<rparr> in
      if msgid = 1 then
        (case reg_settings msg of
           None \<Rightarrow> None
         | Some m \<Rightarrow> Some (a1\<lparr>platform := snd (run_state m (platform a1))\<rparr>))
      else Some a1)"

section \<open>The receive loop\<close>

record 's conn =
  c_sock :: 's
  c_rxbuf :: "u8 list"
  c_app :: app

text \<open>One pass: go on, leave the loop with a read error, or \<open>Undefined\<close>, where C gives no result
  (an access out of bounds, or a message id that was never stored).\<close>

datatype 's pass = Next "'s conn" | Stop errno "'s conn" | Undefined

definition client_pass :: "'s recv_fn \<Rightarrow> 's conn \<Rightarrow> 's pass" where
  "client_pass rcv c =
     (case psc_recvmsg rcv (c_sock c) (c_rxbuf c) RXBUF_LEN of
        None \<Rightarrow> Undefined
      | Some (rr, s') \<Rightarrow>
          (case (rr_ret rr, rr_msg rr) of
             (Some e, _) \<Rightarrow> Stop e (c\<lparr>c_sock := s', c_rxbuf := rr_buf rr\<rparr>)
           | (None, None) \<Rightarrow> Undefined
           | (None, Some (msgid, msglen)) \<Rightarrow>
               (case client_msg msgid msglen (rr_buf rr) (c_app c) of
                  None \<Rightarrow> Undefined
                | Some a' \<Rightarrow> Next \<lparr>c_sock = s', c_rxbuf = rr_buf rr, c_app = a'\<rparr>)))"

text \<open>The loop may run forever, so that not ending is \<open>None\<close>.\<close>

partial_function (option) client_loop :: "'s recv_fn \<Rightarrow> 's conn \<Rightarrow> 's pass option" where
  "client_loop rcv c = (case client_pass rcv c of
     Next c' \<Rightarrow> client_loop rcv c' | Stop e c' \<Rightarrow> Some (Stop e c') | Undefined \<Rightarrow> Some Undefined)"

section \<open>What the messages are to do\<close>

text \<open>The buffer after a body was received over its old content.\<close>

definition overlay :: "u8 list \<Rightarrow> u8 list \<Rightarrow> u8 list" where
  "overlay body buf = take (length buf) body @ drop (min (length body) (length buf)) buf"

text \<open>The messages handled one by one, in the order they were sent: no sockets, no framing.\<close>

fun handle_messages :: "(u16 \<times> u8 list) list \<Rightarrow> u8 list \<times> app \<Rightarrow> (u8 list \<times> app) option" where
  "handle_messages [] st = Some st"
| "handle_messages ((msgid, body) # ms) (buf, a) =
     (case client_msg msgid (min (length body) (length buf)) (overlay body buf) a of
        None \<Rightarrow> None
      | Some a' \<Rightarrow> handle_messages ms (overlay body buf, a'))"

text \<open>The end of the stream: once the peer has closed and all is read, \<open>recv\<close> returns 0.\<close>

definition recv_eof :: "'s recv_fn \<Rightarrow> ('s \<Rightarrow> u8 list) \<Rightarrow> bool" where
  "recv_eof rcv inp \<longleftrightarrow> (\<forall>s n. inp s = [] \<longrightarrow> 0 < n \<longrightarrow> (\<exists>s'. rcv s n = (RxGot [], s')))"

lemma overlay_length [simp]: "length (overlay body buf) = length buf"
  by (simp add: overlay_def min_def)

lemma overlay_prefix: "length body \<le> length buf \<Longrightarrow> overlay body buf = body @ drop (length body) buf"
  by (simp add: overlay_def min_def)

lemma reg_settings_Some: "8 \<le> length msg \<Longrightarrow> \<exists>a d. reg_settings msg = Some (reg_dispatch a d)"
  using ld32_Some_iff[of msg 0] ld32_Some_iff[of msg 4] by (force simp: reg_settings_def)

lemma client_msg_Some: "8 \<le> length msg \<Longrightarrow> \<exists>a'. client_msg msgid n msg a = Some a'"
  using reg_settings_Some[of msg] by (auto simp: client_msg_def Let_def)

lemma handle_messages_Some:
  "8 \<le> length buf \<Longrightarrow> \<exists>buf' a'. handle_messages ms (buf, a) = Some (buf', a') \<and> length buf' = length buf"
proof (induction ms "(buf, a)" arbitrary: buf a rule: handle_messages.induct)
  case (2 msgid body ms buf a)
  with client_msg_Some[of "overlay body buf"] show ?case by fastforce
qed simp

section \<open>The loop delivers the messages\<close>

lemma client_pass_frame:
  assumes "recv_ok rcv inp" "recv_live rcv inp"
    and "inp (c_sock c) = frame (msgid, body) @ rest" "length body < 2 ^ 32"
    and "length (c_rxbuf c) = RXBUF_LEN"
    and "client_msg msgid (min (length body) RXBUF_LEN) (overlay body (c_rxbuf c)) (c_app c) = Some a'"
  shows "\<exists>s'. client_pass rcv c =
      Next \<lparr>c_sock = s', c_rxbuf = overlay body (c_rxbuf c), c_app = a'\<rparr> \<and> inp s' = rest"
  using psc_recvmsg_frame[OF assms(1-4), of RXBUF_LEN "c_rxbuf c"] assms(5,6)
  by (auto simp: client_pass_def overlay_def)

lemma client_pass_eof:
  assumes ok: "recv_ok rcv inp" and eof: "recv_eof rcv inp" and "inp (c_sock c) = []"
  shows "\<exists>s'. client_pass rcv c = Stop ENOTCONN (c\<lparr>c_sock := s'\<rparr>) \<and> inp s' = []"
proof -
  obtain s' where s': "rcv (c_sock c) 8 = (RxGot [], s')"
    using eof assms(3) unfolding recv_eof_def by (meson zero_less_numeral)
  then have "inp s' = []" using recv_okD(1)[OF ok s'] assms(3) by simp
  moreover have "psc_recvmsg rcv (c_sock c) (c_rxbuf c) RXBUF_LEN =
      Some (\<lparr>rr_ret = Some ENOTCONN, rr_msg = None, rr_buf = c_rxbuf c\<rparr>, s')"
    using s' by (simp add: psc_recvmsg_def psc_recvhead_def psc_recvall.simps)
  ultimately show ?thesis by (auto simp: client_pass_def)
qed

lemma RXBUF_ge: "8 \<le> RXBUF_LEN"
  by (simp add: RXBUF_LEN_def)

lemma client_loop_frames:
  assumes sock: "recv_ok rcv inp" "recv_live rcv inp" "recv_eof rcv inp"
  shows "inp (c_sock c) = concat (map frame ms) \<Longrightarrow> list_all msg_ok ms \<Longrightarrow>
    length (c_rxbuf c) = RXBUF_LEN \<Longrightarrow>
    \<exists>s' buf a. handle_messages ms (c_rxbuf c, c_app c) = Some (buf, a) \<and> inp s' = []
      \<and> client_loop rcv c = Some (Stop ENOTCONN \<lparr>c_sock = s', c_rxbuf = buf, c_app = a\<rparr>)"
proof (induction ms arbitrary: c)
  case Nil
  then obtain s' where "client_pass rcv c = Stop ENOTCONN (c\<lparr>c_sock := s'\<rparr>)" "inp s' = []"
    using client_pass_eof[OF sock(1,3)] by fastforce
  then have "client_loop rcv c = Some (Stop ENOTCONN (c\<lparr>c_sock := s'\<rparr>)) \<and> inp s' = []"
    by (simp add: client_loop.simps[of rcv c])
  then show ?case by (cases c) auto
next
  case (Cons m ms)
  obtain msgid body where m: "m = (msgid, body)" by fastforce
  have len: "length (overlay body (c_rxbuf c)) = RXBUF_LEN" using Cons.prems(3) by simp
  obtain a' where a': "client_msg msgid (min (length body) RXBUF_LEN) (overlay body (c_rxbuf c)) (c_app c) = Some a'"
    using client_msg_Some[of "overlay body (c_rxbuf c)"] len RXBUF_ge by metis
  obtain s' where s': "client_pass rcv c = Next \<lparr>c_sock = s', c_rxbuf = overlay body (c_rxbuf c), c_app = a'\<rparr>"
      "inp s' = concat (map frame ms)"
    using client_pass_frame[OF sock(1,2) _ _ Cons.prems(3) a'] Cons.prems m by (auto simp: msg_ok_def)
  have "\<exists>s'' buf a. handle_messages ms (overlay body (c_rxbuf c), a') = Some (buf, a) \<and> inp s'' = []
      \<and> client_loop rcv \<lparr>c_sock = s', c_rxbuf = overlay body (c_rxbuf c), c_app = a'\<rparr>
        = Some (Stop ENOTCONN \<lparr>c_sock = s'', c_rxbuf = buf, c_app = a\<rparr>)"
    using Cons.IH[of "\<lparr>c_sock = s', c_rxbuf = overlay body (c_rxbuf c), c_app = a'\<rparr>"] s' len Cons.prems
    by simp
  with a' s' m Cons.prems(3) show ?case by (simp add: client_loop.simps[of rcv c])
qed

section \<open>Register messages\<close>

text \<open>A setting as the IOC sends it: message id 1, number and value.\<close>

definition setting :: "u32 \<times> u32 \<Rightarrow> u16 \<times> u8 list" where
  "setting = (\<lambda>(a, d). (1, be32 a @ be32 d))"

definition apply_settings :: "(u32 \<times> u32) list \<Rightarrow> unit io" where
  "apply_settings sets = for_each sets (\<lambda>(a, d). do { blink; reg_dispatch a d })"

lemma reg_settings_overlay:
  assumes "8 \<le> length buf"
  shows "reg_settings (overlay (be32 a @ be32 d) buf) = Some (reg_dispatch a d)"
proof -
  have "ld32 (be32 a @ be32 d @ rest) 4 = Some (htonl d)" for rest
    using ld32_drop[of "be32 a" 4 "be32 d @ rest"] by (simp add: ld32_be32)
  then show ?thesis
    using assms by (simp add: overlay_prefix reg_settings_def ld32_be32)
qed

lemma handle_settings:
  "8 \<le> length buf \<Longrightarrow> \<exists>buf'. handle_messages (map setting sets) (buf, a) =
     Some (buf', \<lparr>ioc_access_count = ioc_access_count a + of_nat (length sets),
                  platform = snd (run_state (apply_settings sets) (platform a))\<rparr>)"
proof (induction sets arbitrary: buf a)
  case Nil
  then show ?case by (simp add: apply_settings_def)
next
  case (Cons s sets)
  obtain r d where s: "s = (r, d)" by fastforce
  obtain w where w: "run_state blink (platform a) = ((), w)"
    by (cases "run_state blink (platform a)") auto
  obtain v where v: "run_state (reg_dispatch r d) w = ((), v)"
    by (cases "run_state (reg_dispatch r d) w") auto
  have msg: "client_msg 1 (min (length (be32 r @ be32 d)) (length buf)) (overlay (be32 r @ be32 d) buf) a
      = Some \<lparr>ioc_access_count = ioc_access_count a + 1, platform = v\<rparr>"
    using Cons.prems w v by (simp add: client_msg_def reg_settings_overlay)
  have "8 \<le> length (overlay (be32 r @ be32 d) buf)" using Cons.prems by simp
  then obtain buf' where "handle_messages (map setting sets)
        (overlay (be32 r @ be32 d) buf, \<lparr>ioc_access_count = ioc_access_count a + 1, platform = v\<rparr>) =
      Some (buf', \<lparr>ioc_access_count = ioc_access_count a + 1 + of_nat (length sets),
        platform = snd (run_state (apply_settings sets) v)\<rparr>)"
    using Cons.IH[of "overlay (be32 r @ be32 d) buf"
        "\<lparr>ioc_access_count = ioc_access_count a + 1, platform = v\<rparr>"] by auto
  with msg w v s show ?case
    by (simp add: setting_def apply_settings_def algebra_simps)
qed

lemma run_blink [io_simps]:
  "run_state blink w = ((), w\<lparr>trace := trace w @ [Wr32 (PL IOC_ACCESS_REG) 1, Wr32 (PL IOC_ACCESS_REG) 0]\<rparr>)"
  by (simp add: blink_def io_simps log_ev_def)

text \<open>A body shorter than the setting leaves the end of the previous setting in the buffer.\<close>

lemma stale_overlay:
  assumes "8 \<le> length buf"
  shows "overlay [] (overlay (be32 a @ be32 d) buf) = overlay (be32 a @ be32 d) (overlay (be32 a @ be32 d) buf)"
    and "overlay (be32 b) (overlay (be32 a @ be32 d) buf) = overlay (be32 b @ be32 d) (overlay (be32 a @ be32 d) buf)"
  using assms by (simp_all add: overlay_def)

text \<open>The registers after a list of settings: each one overrides those before it.\<close>

fun settings_spec :: "(u32 \<times> u32) list \<Rightarrow> nat \<rightharpoonup> u32" where
  "settings_spec [] = Map.empty"
| "settings_spec ((a, d) # sets) = dispatch_spec a d ++ settings_spec sets"

lemma apply_settings_regs:
  assumes "r \<noteq> IOC_ACCESS_REG"
  shows "last_write (trace (snd (run_state (apply_settings sets) w))) (PL r) =
     (case settings_spec sets r of None \<Rightarrow> last_write (trace w) (PL r) | Some v \<Rightarrow> Some v)"
proof (induction sets arbitrary: w rule: settings_spec.induct)
  case 1
  then show ?case by (simp add: apply_settings_def)
next
  case (2 a d sets)
  define w1 where "w1 = snd (run_state blink w)"
  define w2 where "w2 = snd (run_state (reg_dispatch a d) w1)"
  have "run_state (apply_settings ((a, d) # sets)) w = run_state (apply_settings sets) w2"
    by (simp add: apply_settings_def w2_def w1_def split: prod.split)
  moreover have "last_write (trace w1) (PL r) = last_write (trace w) (PL r)"
    using assms by (simp add: w1_def run_blink last_write_append)
  moreover have "last_write (trace w2) (PL r) =
      (case dispatch_spec a d r of None \<Rightarrow> last_write (trace w1) (PL r) | Some v \<Rightarrow> Some v)"
    unfolding w2_def by (rule reg_dispatch_last_write)
  ultimately show ?case
    using 2[of w2] by (simp add: map_add_def split: option.split)
qed

section \<open>Every write is legal\<close>

text \<open>What a connection leaves of the platform: more trace, every write in it legal.\<close>

definition legal_growth :: "world \<Rightarrow> world \<Rightarrow> bool" where
  "legal_growth w w' \<longleftrightarrow> env w' = env w \<and> (\<exists>evs. trace w' = trace w @ evs \<and> list_all legal_event evs)"

lemma legal_growth_refl: "legal_growth w w"
  by (simp add: legal_growth_def)

lemma legal_growth_trans: "legal_growth u v \<Longrightarrow> legal_growth v w \<Longrightarrow> legal_growth u w"
  unfolding legal_growth_def by (metis append_assoc list_all_append)

lemma legal_growth_run: "appends legal_event m \<Longrightarrow> legal_growth w (snd (run_state m w))"
  unfolding appends_def legal_growth_def by blast

lemma blink_legal: "appends legal_event blink"
  unfolding blink_def by (intro appends_intros) (simp_all add: rdl_map_def)

lemma client_msg_legal:
  assumes "client_msg msgid n msg a = Some a'"
  shows "legal_growth (platform a) (platform a')"
proof -
  have "reg_settings msg = Some m \<Longrightarrow> appends legal_event m" for m
    by (auto simp: reg_settings_def reg_dispatch_legal split: option.splits)
  moreover have "legal_growth (platform a) (snd (run_state blink (platform a)))"
    by (rule legal_growth_run) (rule blink_legal)
  ultimately show ?thesis
    using assms by (auto simp: client_msg_def Let_def split: if_splits option.splits
        intro: legal_growth_trans[OF _ legal_growth_run])
qed

lemma client_pass_legal:
  "client_pass rcv c = Next c' \<Longrightarrow> legal_growth (platform (c_app c)) (platform (c_app c'))"
  "client_pass rcv c = Stop e c' \<Longrightarrow> c_app c' = c_app c"
  by (auto simp: client_pass_def split: option.splits prod.splits dest: client_msg_legal)

definition legal_end :: "'s conn \<Rightarrow> 's pass \<Rightarrow> bool" where
  "legal_end c p \<longleftrightarrow> p = Undefined \<or>
     (\<exists>e c'. p = Stop e c' \<and> legal_growth (platform (c_app c)) (platform (c_app c')))"

lemma client_loop_legal: "client_loop rcv c = Some p \<Longrightarrow> legal_end c p"
proof (induct rule: client_loop.raw_induct[rotated, consumes 1, case_names pass])
  case (pass cont rcv c p)
  show ?case
  proof (cases "client_pass rcv c")
    case (Next c')
    with pass have "legal_end c' p" by simp
    with client_pass_legal(1)[OF Next] show ?thesis
      by (auto simp: legal_end_def intro: legal_growth_trans)
  next
    case (Stop e c')
    with pass(2) client_pass_legal(2)[OF Stop] show ?thesis
      by (auto simp: legal_end_def intro: legal_growth_refl)
  next
    case Undefined
    with pass(2) show ?thesis by (simp add: legal_end_def)
  qed
qed

section \<open>Settings on the way from the client to the platform\<close>

text \<open>What a finished connection leaves of the platform: the settings were applied to it, on the same hardware.\<close>

lemma client_settings:
  assumes "recv_ok rcv inp" "recv_live rcv inp" "recv_eof rcv inp"
    and "inp (c_sock c) = concat (map (\<lambda>(a, d). frame (1, be32 a @ be32 d)) sets)"
    and "length (c_rxbuf c) = RXBUF_LEN"
  obtains c' where "client_loop rcv c = Some (Stop ENOTCONN c')"
    "ioc_access_count (c_app c') = ioc_access_count (c_app c) + of_nat (length sets)"
    "platform (c_app c') = snd (run_state (apply_settings sets) (platform (c_app c)))"
    "env (platform (c_app c')) = env (platform (c_app c))"
proof -
  have "inp (c_sock c) = concat (map frame (map setting sets))"
    by (simp add: assms(4) setting_def split_def comp_def)
  moreover have "list_all msg_ok (map setting sets)"
    by (simp add: list_all_iff msg_ok_def setting_def split_def)
  ultimately obtain s' buf a where run: "handle_messages (map setting sets) (c_rxbuf c, c_app c) = Some (buf, a)"
    "client_loop rcv c = Some (Stop ENOTCONN \<lparr>c_sock = s', c_rxbuf = buf, c_app = a\<rparr>)"
    using client_loop_frames[OF assms(1-3) _ _ assms(5)] by blast
  then have a: "ioc_access_count a = ioc_access_count (c_app c) + of_nat (length sets)"
    "platform a = snd (run_state (apply_settings sets) (platform (c_app c)))"
    using handle_settings[of "c_rxbuf c" sets "c_app c"] assms(5) RXBUF_ge by auto
  have "appends legal_event (apply_settings sets)"
    unfolding apply_settings_def by (intro appends_for_each) (auto intro: appends_bind blink_legal reg_dispatch_legal)
  from that[OF run(2)] a appends_env[OF this] show ?thesis by simp
qed

section \<open>Receive buffers and sockets for the witnesses\<close>

definition fresh_rxbuf :: "u8 list" where
  "fresh_rxbuf = replicate RXBUF_LEN 0"

definition app0 :: app where
  "app0 = \<lparr>ioc_access_count = 0, platform = start_world storing_hw\<rparr>"

lemma fresh_rxbuf_length [simp]: "length fresh_rxbuf = RXBUF_LEN"
  unfolding fresh_rxbuf_def by (rule length_replicate)

lemma chunk_recv_eof: "recv_eof (chunk_recv k) (\<lambda>s. s)"
  by (simp add: recv_eof_def chunk_recv_def)

section \<open>Properties\<close>

text \<open>
  Property C10 (liveness): however the connection cuts the stream, every message the peer sent before
  it closed is handled exactly once and in order, the loop then ends with the connection's end, and
  nothing of the stream is left.
\<close>

theorem client_loop_delivers:
  assumes "recv_ok rcv inp" "recv_live rcv inp" "recv_eof rcv inp"
    and "inp (c_sock c) = concat (map frame ms)" "list_all msg_ok ms"
    and "length (c_rxbuf c) = RXBUF_LEN"
  shows "\<exists>s' buf a. handle_messages ms (c_rxbuf c, c_app c) = Some (buf, a) \<and> inp s' = []
      \<and> client_loop rcv c = Some (Stop ENOTCONN \<lparr>c_sock = s', c_rxbuf = buf, c_app = a\<rparr>)"
  using client_loop_frames[OF assms] .

theorem client_loop_delivers_witness:
  "\<exists>s' buf a. handle_messages [(1, be32 144 @ be32 7), (5, [])] (fresh_rxbuf, app0) = Some (buf, a) \<and> s' = []
      \<and> client_loop (chunk_recv 3) \<lparr>c_sock = frame (1, be32 144 @ be32 7) @ frame (5, []),
          c_rxbuf = fresh_rxbuf, c_app = app0\<rparr>
        = Some (Stop ENOTCONN \<lparr>c_sock = s', c_rxbuf = buf, c_app = a\<rparr>)"
  using client_loop_delivers[OF chunk_recv_ok[of 3] chunk_recv_live[of 3] chunk_recv_eof[of 3],
      of "\<lparr>c_sock = frame (1, be32 144 @ be32 7) @ frame (5, []), c_rxbuf = fresh_rxbuf, c_app = app0\<rparr>"
        "[(1, be32 144 @ be32 7), (5, [])]"]
  by (simp add: msg_ok_def)

text \<open>
  Property C1 (refinement): a client that sends settings and closes finds them applied in order: the
  access counter has grown by their number, and every register but the LED's holds what the last
  setting naming it left there.
\<close>

theorem settings_end_to_end:
  assumes "recv_ok rcv inp" "recv_live rcv inp" "recv_eof rcv inp"
    and "inp (c_sock c) = concat (map (\<lambda>(a, d). frame (1, be32 a @ be32 d)) sets)"
    and "length (c_rxbuf c) = RXBUF_LEN" "r \<noteq> IOC_ACCESS_REG"
  shows "\<exists>c'. client_loop rcv c = Some (Stop ENOTCONN c')
    \<and> ioc_access_count (c_app c') = ioc_access_count (c_app c) + of_nat (length sets)
    \<and> last_write (trace (platform (c_app c'))) (PL r) =
        (case settings_spec sets r of
           None \<Rightarrow> last_write (trace (platform (c_app c))) (PL r) | Some v \<Rightarrow> Some v)"
  by (rule client_settings[OF assms(1-5)]) (auto simp: apply_settings_regs[OF assms(6)])

theorem settings_end_to_end_witness:
  "\<exists>c'. client_loop (chunk_recv 3) \<lparr>c_sock = frame (1, be32 144 @ be32 7) @ frame (1, be32 144 @ be32 9),
          c_rxbuf = fresh_rxbuf, c_app = app0\<rparr> = Some (Stop ENOTCONN c')
    \<and> ioc_access_count (c_app c') = 2
    \<and> last_write (trace (platform (c_app c'))) (PL KX_REG) = Some 9"
  using settings_end_to_end[OF chunk_recv_ok[of 3] chunk_recv_live[of 3] chunk_recv_eof[of 3],
      of "\<lparr>c_sock = frame (1, be32 144 @ be32 7) @ frame (1, be32 144 @ be32 9),
          c_rxbuf = fresh_rxbuf, c_app = app0\<rparr>" "[(144, 7), (144, 9)]" KX_REG]
  by (simp add: app0_def dispatch_spec_def ctl_codes_def setting_spec_def)



text \<open>
  Whatever a peer and its connection do, whenever the receive loop of a client
  ends it has only added to the trace, and every write it added is to a register software may write.
\<close>

theorem client_loop_writes_legal:
  assumes "client_loop rcv c = Some (Stop e c')"
  shows "\<exists>evs. trace (platform (c_app c')) = trace (platform (c_app c)) @ evs \<and> list_all legal_event evs"
  using client_loop_legal[OF assms] by (auto simp: legal_end_def legal_growth_def)

theorem client_loop_writes_legal_witness:
  "\<exists>evs. trace (platform app0) = trace (platform app0) @ evs \<and> list_all legal_event evs"
proof -
  have "client_loop script_recv \<lparr>c_sock = [RxErr EIO], c_rxbuf = fresh_rxbuf, c_app = app0\<rparr>
      = Some (Stop EIO \<lparr>c_sock = [], c_rxbuf = fresh_rxbuf, c_app = app0\<rparr>)"
    by (subst client_loop.simps) (simp add: client_pass_def psc_recvmsg_def psc_recvhead_def psc_recvall.simps)
  from client_loop_writes_legal[OF this] show ?thesis by simp
qed

end
