(* ===== verification/Listener.thy ===== *)
theory Listener imports Psc_Msg begin

text \<open>
  The server of \<^verbatim>\<open>listener.c\<close>: the table of clients with its bitmap, the set-up and accept loop of \<open>psc_run\<close>, the
  life of a client thread (\<open>handle_client\<close>) and the broadcast \<open>psc_send\<close>, which \<open>psc_verror\<close> of \<^verbatim>\<open>pscmsg.c\<close> uses. The threads interleave at
  the points where the code takes \<open>sendguard\<close> or waits; what a client's messages do is in Client.
  The sockets are lwIP's: \<open>accept\<close>, \<open>send\<close> and \<open>close\<close> are parameters.
\<close>

section \<open>The client table\<close>

abbreviation (input) PSC_MAX_CLIENTS :: nat where "PSC_MAX_CLIENTS \<equiv> 4"

text \<open>A slot of the table; its receive buffer is in Client. All zero after \<open>memset\<close>.\<close>

record psc_client =
  index :: nat
  sock :: int

record psc_key =
  clients_used :: u32
  clients :: "psc_client list"

definition slot_bit :: "nat \<Rightarrow> u32" where
  "slot_bit i = push_bit i 1"

definition slot_used :: "psc_key \<Rightarrow> nat \<Rightarrow> bool" where
  "slot_used k i \<longleftrightarrow> clients_used k AND slot_bit i \<noteq> 0"

fun alloc_from :: "nat list \<Rightarrow> psc_key \<Rightarrow> nat option \<times> psc_key" where
  "alloc_from [] k = (None, k)"
| "alloc_from (i # is) k =
     (if slot_used k i then alloc_from is k
      else (Some i, k\<lparr>clients_used := clients_used k OR slot_bit i,
                      clients := (clients k)[i := \<lparr>index = i, sock = 0\<rparr>]\<rparr>))"

definition psc_client_alloc :: "psc_key \<Rightarrow> nat option \<times> psc_key" where
  "psc_client_alloc k = alloc_from [0..<PSC_MAX_CLIENTS] k"

definition psc_client_free :: "nat \<Rightarrow> psc_key \<Rightarrow> psc_key" where
  "psc_client_free i k =
     k\<lparr>clients_used := clients_used k AND NOT (slot_bit (index (clients k ! i))),
       clients := (clients k)[i := \<lparr>index = 0, sock = 0\<rparr>]\<rparr>"

section \<open>Sending to the clients\<close>

record 's lwip =
  l_accept :: "'s \<Rightarrow> int \<times> 's"
  l_send :: "int \<Rightarrow> 's send_fn"
  l_close :: "int \<Rightarrow> 's \<Rightarrow> 's"

definition send_to :: "'s lwip \<Rightarrow> u16 \<Rightarrow> u8 list \<Rightarrow> nat \<Rightarrow> psc_key \<times> 's \<Rightarrow> psc_key \<times> 's" where
  "send_to L msgid msg i = (\<lambda>(k, s).
     let C = clients k ! i in
     case psc_sendmsg (l_send L (sock C)) s msgid msg of
       (None, s') \<Rightarrow> (k, s')
     | (Some e, s') \<Rightarrow> (k\<lparr>clients := (clients k)[i := C\<lparr>sock := -1\<rparr>]\<rparr>, l_close L (sock C) s'))"

definition psc_send_slot :: "'s lwip \<Rightarrow> u16 \<Rightarrow> u8 list \<Rightarrow> nat \<Rightarrow> psc_key \<times> 's \<Rightarrow> psc_key \<times> 's" where
  "psc_send_slot L msgid msg i = (\<lambda>(k, s).
     if \<not> slot_used k i \<or> sock (clients k ! i) = -1 then (k, s) else send_to L msgid msg i (k, s))"

definition psc_send :: "'s lwip \<Rightarrow> u16 \<Rightarrow> u8 list \<Rightarrow> psc_key option \<times> 's \<Rightarrow> psc_key option \<times> 's" where
  "psc_send L msgid msg = (\<lambda>(PSC, s). case PSC of
     None \<Rightarrow> (None, s)
   | Some k \<Rightarrow> apfst Some (fold (psc_send_slot L msgid msg) [0..<PSC_MAX_CLIENTS] (k, s)))"

definition psc_send_one :: "'s lwip \<Rightarrow> nat \<Rightarrow> u16 \<Rightarrow> u8 list \<Rightarrow> psc_key \<times> 's \<Rightarrow> psc_key \<times> 's" where
  "psc_send_one L i msgid msg = (\<lambda>(k, s).
     if sock (clients k ! i) \<noteq> -1 then send_to L msgid msg i (k, s) else (k, s))"

text \<open>
  \<open>psc_verror\<close> formats into a buffer of \<open>THREAD_STACKSIZE / 32\<close> bytes on the stack and sends all of it. Of
  \<open>vsnprintf\<close> the formatted text is an argument, what the buffer held before is another.
\<close>

abbreviation (input) VERROR_LEN :: nat where "VERROR_LEN \<equiv> 2048 div 32"

definition vsnprintf :: "nat \<Rightarrow> u8 list \<Rightarrow> u8 list \<Rightarrow> u8 list" where
  "vsnprintf n txt buf = (let t = take (n - 1) txt in t @ 0 # drop (Suc (length t)) buf)"

definition psc_verror :: "'s lwip \<Rightarrow> int \<Rightarrow> u8 list \<Rightarrow> u8 list \<Rightarrow> psc_key option \<times> 's \<Rightarrow> psc_key option \<times> 's" where
  "psc_verror L code txt stack =
     psc_send L (word_of_int code) ((vsnprintf VERROR_LEN txt stack)[VERROR_LEN - 1 := 0])"

text \<open>The message always has the size of the buffer; after the text's zero come the old bytes of the stack.\<close>

lemma verror_sends_stack:
  assumes "length stack = VERROR_LEN" "length txt < VERROR_LEN - 1"
  shows "psc_verror L code txt stack =
    psc_send L (word_of_int code) (txt @ [0] @ take (VERROR_LEN - 2 - length txt) (drop (Suc (length txt)) stack) @ [0])"
proof -
  have "(txt @ 0 # drop (Suc (length txt)) stack)[63 := 0]
      = txt @ [0] @ take (62 - length txt) (drop (Suc (length txt)) stack) @ [0]"
    using assms by (intro nth_equalityI) (auto simp: nth_append nth_list_update nth_Cons' less_diff_conv)
  then show ?thesis using assms by (simp add: psc_verror_def vsnprintf_def Let_def)
qed

text \<open>\<open>client_event\<close> of \<^verbatim>\<open>main.c\<close>: a new client gets the git hash and a serial number of 0.\<close>

datatype psc_event = PSC_CONN | PSC_DIS

definition client_event :: "'s lwip \<Rightarrow> u32 \<Rightarrow> psc_event \<Rightarrow> nat \<Rightarrow> psc_key \<times> 's \<Rightarrow> psc_key \<times> 's" where
  "client_event L git_hash evt i ks =
     (if evt \<noteq> PSC_CONN then ks
      else psc_send_one L i 0x100 (le32 (htonl git_hash) @ le32 0) ks)"

section \<open>The threads\<close>

text \<open>
  Where the accept loop is: waiting, between \<open>accept\<close> and \<open>psc_client_alloc\<close>, or between the
  allocation and \<open>C->sock = client\<close>. Where a client thread is: created but not run yet, serving (the
  local \<open>sock\<close> is a copy taken at its start), between \<open>psc_client_free\<close> and \<open>close(sock)\<close>, or deleted.
\<close>

datatype acc_phase = Waiting | Accepted int | Allocated int nat

datatype client_thread = Created nat | Serving nat int | Freed int | Ended

record 's sys =
  pkey :: psc_key
  net :: 's
  acc :: acc_phase
  threads :: "client_thread list"

datatype op =
    Accept                  \<comment> \<open>\<open>accept\<close> returns\<close>
  | Alloc                   \<comment> \<open>\<open>psc_client_alloc\<close>, or the connection is dropped\<close>
  | Start                   \<comment> \<open>\<open>C->sock = client\<close>, \<open>sys_thread_new\<close>\<close>
  | Begin nat               \<comment> \<open>a thread starts and runs the connect callback\<close>
  | Leave nat               \<comment> \<open>a read error: disconnect callback, \<open>psc_client_free\<close>\<close>
  | Close nat               \<comment> \<open>\<open>close(sock)\<close>, \<open>vTaskDelete\<close>\<close>
  | Send u16 "u8 list"      \<comment> \<open>another thread calls \<open>psc_send\<close>\<close>

definition set_thread :: "nat \<Rightarrow> client_thread \<Rightarrow> 's sys \<Rightarrow> 's sys" where
  "set_thread t th s = s\<lparr>threads := (threads s)[t := th]\<rparr>"

definition psc_run_accept :: "'s lwip \<Rightarrow> 's sys \<Rightarrow> 's sys option" where
  "psc_run_accept L s = (case acc s of
     Waiting \<Rightarrow> (case l_accept L (net s) of (fd, n) \<Rightarrow>
       Some (s\<lparr>net := n, acc := if fd = -1 then Waiting else Accepted fd\<rparr>))
   | _ \<Rightarrow> None)"

definition psc_run_alloc :: "'s lwip \<Rightarrow> 's sys \<Rightarrow> 's sys option" where
  "psc_run_alloc L s = (case acc s of
     Accepted fd \<Rightarrow> (case psc_client_alloc (pkey s) of
         (None, k) \<Rightarrow> Some (s\<lparr>pkey := k, net := l_close L fd (net s), acc := Waiting\<rparr>)
       | (Some i, k) \<Rightarrow> Some (s\<lparr>pkey := k, acc := Allocated fd i\<rparr>))
   | _ \<Rightarrow> None)"

definition psc_run_start :: "'s sys \<Rightarrow> 's sys option" where
  "psc_run_start s = (case acc s of
     Allocated fd i \<Rightarrow> Some (s\<lparr>
       pkey := (pkey s)\<lparr>clients := (clients (pkey s))[i := (clients (pkey s) ! i)\<lparr>sock := fd\<rparr>]\<rparr>,
       acc := Waiting, threads := threads s @ [Created i]\<rparr>)
   | _ \<Rightarrow> None)"

definition client_begin :: "'s lwip \<Rightarrow> u32 \<Rightarrow> nat \<Rightarrow> 's sys \<Rightarrow> 's sys option" where
  "client_begin L git_hash t s =
     (if t < length (threads s) then
        (case threads s ! t of
           Created i \<Rightarrow> (case client_event L git_hash PSC_CONN i (pkey s, net s) of (k, n) \<Rightarrow>
             Some (set_thread t (Serving i (sock (clients (pkey s) ! i))) (s\<lparr>pkey := k, net := n\<rparr>)))
         | _ \<Rightarrow> None)
      else None)"

definition client_leave :: "'s lwip \<Rightarrow> u32 \<Rightarrow> nat \<Rightarrow> 's sys \<Rightarrow> 's sys option" where
  "client_leave L git_hash t s =
     (if t < length (threads s) then
        (case threads s ! t of
           Serving i fd \<Rightarrow> (case client_event L git_hash PSC_DIS i (pkey s, net s) of (k, n) \<Rightarrow>
             Some (set_thread t (Freed fd) (s\<lparr>pkey := psc_client_free i k, net := n\<rparr>)))
         | _ \<Rightarrow> None)
      else None)"

definition client_close :: "'s lwip \<Rightarrow> nat \<Rightarrow> 's sys \<Rightarrow> 's sys option" where
  "client_close L t s =
     (if t < length (threads s) then
        (case threads s ! t of
           Freed fd \<Rightarrow> Some (set_thread t Ended (s\<lparr>net := l_close L fd (net s)\<rparr>))
         | _ \<Rightarrow> None)
      else None)"

definition broadcast :: "'s lwip \<Rightarrow> u16 \<Rightarrow> u8 list \<Rightarrow> 's sys \<Rightarrow> 's sys" where
  "broadcast L msgid msg s = (case psc_send L msgid msg (Some (pkey s), net s) of
     (Some k, n) \<Rightarrow> s\<lparr>pkey := k, net := n\<rparr> | (None, n) \<Rightarrow> s\<lparr>net := n\<rparr>)"

fun sys_step :: "'s lwip \<Rightarrow> u32 \<Rightarrow> op \<Rightarrow> 's sys \<Rightarrow> 's sys option" where
  "sys_step L g Accept s = psc_run_accept L s"
| "sys_step L g Alloc s = psc_run_alloc L s"
| "sys_step L g Start s = psc_run_start s"
| "sys_step L g (Begin t) s = client_begin L g t s"
| "sys_step L g (Leave t) s = client_leave L g t s"
| "sys_step L g (Close t) s = client_close L t s"
| "sys_step L g (Send m b) s = Some (broadcast L m b s)"

fun run_ops :: "'s lwip \<Rightarrow> u32 \<Rightarrow> op list \<Rightarrow> 's sys \<Rightarrow> 's sys option" where
  "run_ops L g [] s = Some s"
| "run_ops L g (x # xs) s = Option.bind (sys_step L g x s) (run_ops L g xs)"

text \<open>After \<open>mem_calloc\<close>: no clients, every slot zero.\<close>

definition key0 :: psc_key where
  "key0 = \<lparr>clients_used = 0, clients = replicate PSC_MAX_CLIENTS \<lparr>index = 0, sock = 0\<rparr>\<rparr>"

definition sys0 :: "'s \<Rightarrow> 's sys" where
  "sys0 n = \<lparr>pkey = key0, net = n, acc = Waiting, threads = []\<rparr>"

text \<open>
  How \<open>psc_run\<close> gets there. Each failing call makes it return, with what it has made so far left behind;
  the value is then the call, and \<open>realmain\<close> serves nobody. The arguments are whether the caller's key is
  set already, and what \<open>mem_calloc\<close>, \<open>sys_mutex_new\<close>, \<open>socket\<close>, \<open>bind\<close> and \<open>listen\<close> give.
\<close>

definition psc_run_setup :: "bool \<Rightarrow> bool \<Rightarrow> bool \<Rightarrow> int \<Rightarrow> bool \<Rightarrow> bool \<Rightarrow> 's \<Rightarrow> string + 's sys" where
  "psc_run_setup key_set calloc_ok mutex_ok listen_sock bind_ok listen_ok n =
     (if key_set then Inl ''key already set''
      else if \<not> calloc_ok then Inl ''Unable to allocate''
      else if \<not> mutex_ok then Inl ''sendguard''
      else if listen_sock = -1 then Inl ''socket()''
      else if \<not> bind_ok then Inl ''bind to port''
      else if \<not> listen_ok then Inl ''listen''
      else Inr (sys0 n))"

inductive sys_next :: "'s lwip \<Rightarrow> 's sys \<Rightarrow> 's sys \<Rightarrow> bool" for L where
  "sys_step L g x s = Some t \<Longrightarrow> sys_next L s t"

inductive_cases sys_nextE: "sys_next L s t"

section \<open>The bitmap\<close>

lemma slot_used_bit: "i < 32 \<Longrightarrow> slot_used k i \<longleftrightarrow> bit (clients_used k) i"
  unfolding slot_used_def slot_bit_def
  by (auto simp: bit_eq_iff[of _ "0 :: u32"] bit_simps)

lemma bit_alloc: "i < 32 \<Longrightarrow> bit (u OR slot_bit i) j \<longleftrightarrow> bit u j \<or> j = i"
  by (auto simp: slot_bit_def bit_simps)

lemma bit_free: "bit (u AND NOT (slot_bit i)) j \<longleftrightarrow> bit u j \<and> j \<noteq> i"
  by (auto simp: slot_bit_def bit_simps dest: bit_imp_le_length)

lemma alloc_from_None:
  "list_all (\<lambda>i. i < 32) is \<Longrightarrow>
   fst (alloc_from is k) = None \<longleftrightarrow> list_all (\<lambda>i. bit (clients_used k) i) is"
  by (induction "is" k rule: alloc_from.induct) (auto simp: slot_used_bit)

lemma alloc_from_Some:
  assumes "alloc_from is k = (Some i, k')" "list_all (\<lambda>i. i < 32) is"
  shows "i \<in> set is \<and> \<not> bit (clients_used k) i \<and>
    k' = k\<lparr>clients_used := clients_used k OR slot_bit i, clients := (clients k)[i := \<lparr>index = i, sock = 0\<rparr>]\<rparr>"
  using assms by (induction "is" k rule: alloc_from.induct) (auto simp: slot_used_bit split: if_splits)

lemma alloc_from_unchanged: "alloc_from is k = (None, k') \<Longrightarrow> k' = k"
  by (induction "is" k rule: alloc_from.induct) (auto split: if_splits)

section \<open>Who owns which slot\<close>

fun acc_slot :: "acc_phase \<Rightarrow> nat list" where
  "acc_slot (Allocated fd i) = [i]"
| "acc_slot _ = []"

fun th_slot :: "client_thread \<Rightarrow> nat list" where
  "th_slot (Created i) = [i]"
| "th_slot (Serving i fd) = [i]"
| "th_slot _ = []"

definition owners :: "'s sys \<Rightarrow> nat list" where
  "owners s = acc_slot (acc s) @ concat (map th_slot (threads s))"

text \<open>A slot is marked used exactly while the accept loop or one thread owns it, and knows its
  number.\<close>

definition slots_ok :: "'s sys \<Rightarrow> bool" where
  "slots_ok s \<longleftrightarrow> length (clients (pkey s)) = PSC_MAX_CLIENTS \<and> distinct (owners s)
     \<and> (\<forall>i. bit (clients_used (pkey s)) i \<longleftrightarrow> i \<in> set (owners s))
     \<and> (\<forall>i \<in> set (owners s). i < PSC_MAX_CLIENTS \<and> index (clients (pkey s) ! i) = i)"

lemma concat_map_update_same:
  "t < length xs \<Longrightarrow> f y = f (xs ! t) \<Longrightarrow> concat (map f (xs[t := y])) = concat (map f xs)"
  by (metis list_update_id map_update)

lemma concat_map_update_drop:
  assumes "t < length xs" "f (xs ! t) = [i]" "f y = []" "distinct (zs @ concat (map f xs))"
  shows "distinct (zs @ concat (map f (xs[t := y])))"
    and "set (zs @ concat (map f (xs[t := y]))) = set (zs @ concat (map f xs)) - {i}"
proof -
  have xs: "concat (map f xs) = concat (map f (take t xs)) @ [i] @ concat (map f (drop (Suc t) xs))"
    by (subst id_take_nth_drop[OF assms(1)]) (simp add: assms(2))
  have up: "concat (map f (xs[t := y])) = concat (map f (take t xs)) @ concat (map f (drop (Suc t) xs))"
    by (simp add: upd_conv_take_nth_drop[OF assms(1)] assms(3))
  show "distinct (zs @ concat (map f (xs[t := y])))"
    using assms(4) unfolding xs up by auto
  show "set (zs @ concat (map f (xs[t := y]))) = set (zs @ concat (map f xs)) - {i}"
    using assms(4) unfolding xs up by auto
qed

lemma send_to_key:
  assumes "send_to L m b i (k, s) = (k', s')"
  shows "clients_used k' = clients_used k \<and> length (clients k') = length (clients k)
    \<and> map index (clients k') = map index (clients k)"
  using assms by (auto simp: send_to_def Let_def map_update split: prod.splits option.splits)
    (metis list_update_id map_update)

lemma psc_send_slot_key:
  assumes "psc_send_slot L m b i (k, s) = (k', s')"
  shows "clients_used k' = clients_used k \<and> length (clients k') = length (clients k)
    \<and> map index (clients k') = map index (clients k)"
  using assms send_to_key[of L m b i k s] by (auto simp: psc_send_slot_def split: if_splits)

lemma fold_send_key:
  assumes "fold (psc_send_slot L m b) is (k, s) = (k', s')"
  shows "clients_used k' = clients_used k \<and> length (clients k') = length (clients k)
    \<and> map index (clients k') = map index (clients k)"
  using assms
proof (induction "is" arbitrary: k s)
  case (Cons i "is")
  obtain k1 s1 where "psc_send_slot L m b i (k, s) = (k1, s1)" by fastforce
  with Cons psc_send_slot_key[OF this] show ?case by simp
qed simp

text \<open>Everything but allocation and release leaves the bitmap and the numbers alone.\<close>

lemma slots_ok_cong:
  assumes "slots_ok s" "clients_used (pkey t) = clients_used (pkey s)"
    "map index (clients (pkey t)) = map index (clients (pkey s))" "owners t = owners s"
  shows "slots_ok t"
proof -
  have len: "length (clients (pkey t)) = length (clients (pkey s))"
    using assms(3) by (metis length_map)
  moreover have "i < length (clients (pkey s)) \<Longrightarrow> index (clients (pkey t) ! i) = index (clients (pkey s) ! i)" for i
    using assms(3) len by (metis nth_map)
  ultimately show ?thesis using assms by (auto simp: slots_ok_def)
qed

lemma broadcast_slots: "slots_ok s \<Longrightarrow> slots_ok (broadcast L m b s)"
  by (rule slots_ok_cong[of s])
    (auto simp: broadcast_def psc_send_def owners_def apfst_def map_prod_def
      split: prod.splits dest: fold_send_key)

lemma client_event_key:
  assumes "client_event L g evt i (k, s) = (k', s')"
  shows "clients_used k' = clients_used k \<and> length (clients k') = length (clients k)
    \<and> map index (clients k') = map index (clients k)"
  using assms send_to_key[of L "0x100" "le32 (htonl g) @ le32 0" i k s]
  by (auto simp: client_event_def psc_send_one_def split: if_splits)

lemma psc_run_accept_slots: "psc_run_accept L s = Some t \<Longrightarrow> slots_ok s \<Longrightarrow> slots_ok t"
  by (rule slots_ok_cong[of s])
    (auto simp: psc_run_accept_def owners_def split: acc_phase.splits prod.splits)

lemma psc_run_start_slots: "psc_run_start s = Some t \<Longrightarrow> slots_ok s \<Longrightarrow> slots_ok t"
  by (auto simp: psc_run_start_def slots_ok_def owners_def nth_list_update split: acc_phase.splits)

lemma psc_run_alloc_slots:
  assumes "psc_run_alloc L s = Some t" "slots_ok s"
  shows "slots_ok t"
proof -
  from assms(1) obtain fd where acc: "acc s = Accepted fd"
    by (auto simp: psc_run_alloc_def split: acc_phase.splits)
  obtain r k where al: "psc_client_alloc (pkey s) = (r, k)" by fastforce
  show ?thesis
  proof (cases r)
    case None
    with al have "k = pkey s" by (simp add: psc_client_alloc_def alloc_from_unchanged)
    with assms al acc None show ?thesis
      by (auto simp: psc_run_alloc_def slots_ok_def owners_def)
  next
    case (Some i)
    with al have "i < PSC_MAX_CLIENTS" "\<not> bit (clients_used (pkey s)) i"
      "k = (pkey s)\<lparr>clients_used := clients_used (pkey s) OR slot_bit i,
         clients := (clients (pkey s))[i := \<lparr>index = i, sock = 0\<rparr>]\<rparr>"
      using alloc_from_Some[of "[0..<PSC_MAX_CLIENTS]" "pkey s" i k]
      by (auto simp: psc_client_alloc_def list_all_iff)
    with assms al acc Some show ?thesis
      by (auto simp: psc_run_alloc_def slots_ok_def owners_def bit_alloc nth_list_update)
  qed
qed

lemma client_begin_slots:
  assumes "client_begin L g t s = Some u" "slots_ok s"
  shows "slots_ok u"
proof (rule slots_ok_cong[OF assms(2)])
  show "owners u = owners s"
    using assms(1) by (auto simp: client_begin_def set_thread_def owners_def concat_map_update_same
        split: if_splits client_thread.splits prod.splits)
qed (use assms(1) in \<open>auto simp: client_begin_def set_thread_def
  split: if_splits client_thread.splits prod.splits dest: client_event_key\<close>)

lemma client_close_slots:
  assumes "client_close L t s = Some u" "slots_ok s"
  shows "slots_ok u"
proof (rule slots_ok_cong[OF assms(2)])
  show "owners u = owners s"
    using assms(1) by (auto simp: client_close_def set_thread_def owners_def concat_map_update_same
        split: if_splits client_thread.splits)
qed (use assms(1) in \<open>auto simp: client_close_def set_thread_def
  split: if_splits client_thread.splits\<close>)

lemma client_leave_slots:
  assumes "client_leave L g t s = Some u" "slots_ok s"
  shows "slots_ok u"
proof -
  from assms(1) obtain i fd where th: "t < length (threads s)" "threads s ! t = Serving i fd"
    and u: "u = set_thread t (Freed fd) (s\<lparr>pkey := psc_client_free i (pkey s)\<rparr>)"
    by (auto simp: client_leave_def client_event_def split: if_splits client_thread.splits)
  have own: "distinct (owners u)" "set (owners u) = set (owners s) - {i}"
    using concat_map_update_drop[of t "threads s" th_slot i "Freed fd" "acc_slot (acc s)"] th assms(2)
    by (simp_all add: u owners_def set_thread_def slots_ok_def)
  have "i \<in> set (owners s)"
    using th by (force simp: owners_def in_set_conv_nth)
  then have "i < PSC_MAX_CLIENTS" "index (clients (pkey s) ! i) = i"
    using assms(2) by (auto simp: slots_ok_def)
  then show ?thesis
    using assms(2) own by (auto simp: slots_ok_def u set_thread_def psc_client_free_def bit_free)
qed

lemma sys_step_slots: "sys_step L g x s = Some t \<Longrightarrow> slots_ok s \<Longrightarrow> slots_ok t"
  by (cases x) (auto intro: psc_run_accept_slots psc_run_alloc_slots psc_run_start_slots
      client_begin_slots client_leave_slots client_close_slots broadcast_slots)

lemma sys0_slots: "slots_ok (sys0 n)"
  by (simp add: slots_ok_def sys0_def key0_def owners_def)

interpretation srv: inv_machine "\<lambda>s. \<exists>n. s = sys0 n" "sys_next L" slots_ok for L
  by unfold_locales (auto elim!: sys_nextE intro: sys_step_slots sys0_slots)

lemma run_ops_reachable: "run_ops L g xs s = Some t \<Longrightarrow> (sys_next L)\<^sup>*\<^sup>* s t"
proof (induction xs arbitrary: s)
  case (Cons x xs)
  then obtain u where "sys_step L g x s = Some u" "run_ops L g xs u = Some t"
    by (auto simp: bind_eq_Some_conv)
  with Cons.IH show ?case
    by (meson converse_rtranclp_into_rtranclp sys_next.intros)
qed simp

section \<open>Who owns which socket\<close>

text \<open>The documented behaviour of lwIP's descriptors: \<open>accept\<close> returns one that was not open,
  \<open>close\<close> closes, and sending opens and closes nothing. \<open>opn\<close> is the set of open descriptors.\<close>

definition lwip_ok :: "'s lwip \<Rightarrow> ('s \<Rightarrow> int set) \<Rightarrow> bool" where
  "lwip_ok L opn \<longleftrightarrow>
     (\<forall>n. case l_accept L n of (fd, n') \<Rightarrow>
        if fd = -1 then opn n' = opn n else fd \<notin> opn n \<and> opn n' = insert fd (opn n))
   \<and> (\<forall>fd n. opn (l_close L fd n) = opn n - {fd})
   \<and> (\<forall>fd n b. opn (snd (l_send L fd n b)) = opn n)"

text \<open>A network on which no send fails.\<close>

definition sends_work :: "'s lwip \<Rightarrow> bool" where
  "sends_work L \<longleftrightarrow> (\<forall>fd. send_live (l_send L fd))"

fun acc_fd :: "acc_phase \<Rightarrow> int list" where
  "acc_fd Waiting = []"
| "acc_fd (Accepted fd) = [fd]"
| "acc_fd (Allocated fd i) = [fd]"

fun th_fd :: "psc_client list \<Rightarrow> client_thread \<Rightarrow> int list" where
  "th_fd cs (Created i) = [sock (cs ! i)]"
| "th_fd cs (Serving i fd) = [fd]"
| "th_fd cs (Freed fd) = [fd]"
| "th_fd cs Ended = []"

definition fds :: "'s sys \<Rightarrow> int list" where
  "fds s = acc_fd (acc s) @ concat (map (th_fd (clients (pkey s))) (threads s))"

definition fds_ok :: "('s \<Rightarrow> int set) \<Rightarrow> 's sys \<Rightarrow> bool" where
  "fds_ok opn s \<longleftrightarrow> slots_ok s \<and> distinct (fds s) \<and> set (fds s) \<subseteq> opn (net s)"

lemma th_fd_other:
  "i \<notin> set (concat (map th_slot ths)) \<Longrightarrow>
   concat (map (th_fd (cs[i := c])) ths) = concat (map (th_fd cs) ths)"
proof (induction ths)
  case (Cons th ths)
  then show ?case by (cases th) auto
qed simp

lemma send_to_works:
  assumes "sends_work L" "lwip_ok L opn"
  shows "\<exists>s'. send_to L m b i (k, s) = (k, s') \<and> opn s' = opn s"
proof -
  let ?send = "l_send L (sock (clients k ! i))"
  have "send_live ?send" using assms(1) by (simp add: sends_work_def)
  then obtain s' where s': "psc_sendmsg ?send s m b = (None, s')"
    using psc_sendmsg_returns[of ?send s m b] by blast
  moreover have "opn (snd (psc_sendmsg ?send s m b)) = opn s"
    using assms(2) by (intro psc_sendmsg_keeps) (simp add: lwip_ok_def)
  ultimately show ?thesis by (simp add: send_to_def)
qed

lemma fold_send_works:
  assumes "sends_work L" "lwip_ok L opn"
  shows "\<exists>s'. fold (psc_send_slot L m b) is (k, s) = (k, s') \<and> opn s' = opn s"
proof (induction "is" arbitrary: s)
  case (Cons i "is")
  have "\<exists>t. psc_send_slot L m b i (k, s) = (k, t) \<and> opn t = opn s"
    using send_to_works[OF assms, of m b i k s] by (auto simp: psc_send_slot_def)
  then obtain t where "psc_send_slot L m b i (k, s) = (k, t)" "opn t = opn s" by blast
  with Cons[of t] show ?case by auto
qed simp

lemma broadcast_fds:
  assumes "sends_work L" "lwip_ok L opn" "fds_ok opn s"
  shows "fds_ok opn (broadcast L m b s)"
proof -
  obtain n where "fold (psc_send_slot L m b) [0..<PSC_MAX_CLIENTS] (pkey s, net s) = (pkey s, n)"
    "opn n = opn (net s)"
    using fold_send_works[OF assms(1,2)] by blast
  then have b: "broadcast L m b s = s\<lparr>net := n\<rparr>" "opn n = opn (net s)"
    by (simp_all add: broadcast_def psc_send_def del: upt_conv_Cons)
  then show ?thesis
    using assms(3) broadcast_slots[of s L m b] by (simp add: fds_ok_def fds_def)
qed

lemma client_event_works:
  assumes "sends_work L" "lwip_ok L opn"
  shows "\<exists>n. client_event L g evt i (k, s) = (k, n) \<and> opn n = opn s"
  using send_to_works[OF assms, of "0x100" "le32 (htonl g) @ le32 0" i k s]
  by (auto simp: client_event_def psc_send_one_def)

text \<open>The sockets of the accept loop and of the threads, apart.\<close>

abbreviation thread_fds :: "'s sys \<Rightarrow> int list" where
  "thread_fds s \<equiv> concat (map (th_fd (clients (pkey s))) (threads s))"

declare set_concat [simp del]

lemma fds_split: "fds s = acc_fd (acc s) @ thread_fds s"
  by (simp add: fds_def)

lemma fds_okI:
  assumes "slots_ok t" "thread_fds t = ts" "distinct (acc_fd (acc t) @ ts)" "set (acc_fd (acc t) @ ts) \<subseteq> opn (net t)"
  shows "fds_ok opn t"
  using assms by (simp only: fds_ok_def fds_split)

lemma fds_okD:
  assumes "fds_ok opn s"
  shows "slots_ok s" "distinct (acc_fd (acc s) @ thread_fds s)" "set (acc_fd (acc s) @ thread_fds s) \<subseteq> opn (net s)"
  using assms by (simp_all only: fds_ok_def fds_split)

lemma psc_run_accept_fds:
  assumes "lwip_ok L opn" "psc_run_accept L s = Some t" "fds_ok opn s"
  shows "fds_ok opn t"
proof -
  obtain fd n where a: "l_accept L (net s) = (fd, n)" by fastforce
  with assms(1) have "if fd = -1 then opn n = opn (net s) else fd \<notin> opn (net s) \<and> opn n = insert fd (opn (net s))"
    unfolding lwip_ok_def by (metis (mono_tags, lifting) case_prod_conv)
  moreover have "slots_ok t" using assms psc_run_accept_slots by (auto simp: fds_ok_def)
  ultimately show ?thesis
    using assms(2,3) a
    by (auto simp: psc_run_accept_def fds_ok_def fds_def split: acc_phase.splits if_splits)
qed

lemma psc_run_alloc_fds:
  assumes "lwip_ok L opn" "psc_run_alloc L s = Some t" "fds_ok opn s"
  shows "fds_ok opn t"
proof -
  from assms(2) obtain fd where acc: "acc s = Accepted fd"
    by (auto simp: psc_run_alloc_def split: acc_phase.splits)
  obtain r k where al: "psc_client_alloc (pkey s) = (r, k)" by fastforce
  have slots: "slots_ok t" using psc_run_alloc_slots[OF assms(2)] fds_okD(1)[OF assms(3)] .
  have fd: "distinct (fd # thread_fds s)" "set (fd # thread_fds s) \<subseteq> opn (net s)"
    using fds_okD(2,3)[OF assms(3)] acc by simp_all
  show ?thesis
  proof (cases r)
    case None
    with al have k: "k = pkey s" by (simp add: psc_client_alloc_def alloc_from_unchanged)
    with assms(2) al acc None have t: "t = s\<lparr>net := l_close L fd (net s), acc := Waiting\<rparr>"
      by (simp add: psc_run_alloc_def)
    have "opn (net t) = opn (net s) - {fd}" using assms(1) by (simp add: t lwip_ok_def)
    with fd show ?thesis
      by (intro fds_okI[OF slots refl]) (auto simp: t)
  next
    case (Some i)
    with al have i: "\<not> bit (clients_used (pkey s)) i"
      "clients k = (clients (pkey s))[i := \<lparr>index = i, sock = 0\<rparr>]"
      using alloc_from_Some[of "[0..<PSC_MAX_CLIENTS]" "pkey s" i k]
      by (auto simp: psc_client_alloc_def list_all_iff)
    then have "i \<notin> set (concat (map th_slot (threads s)))"
      using fds_okD(1)[OF assms(3)] acc by (simp add: slots_ok_def owners_def)
    moreover from assms(2) al acc Some have t: "t = s\<lparr>pkey := k, acc := Allocated fd i\<rparr>"
      by (simp add: psc_run_alloc_def)
    ultimately have "thread_fds t = thread_fds s" using i(2) th_fd_other by simp
    with fd show ?thesis by (intro fds_okI[OF slots]) (auto simp: t)
  qed
qed

lemma psc_run_start_fds:
  assumes "psc_run_start s = Some t" "fds_ok opn s"
  shows "fds_ok opn t"
proof -
  from assms(1) obtain fd i where acc: "acc s = Allocated fd i"
    by (auto simp: psc_run_start_def split: acc_phase.splits)
  then have i: "i \<notin> set (concat (map th_slot (threads s)))" "i < length (clients (pkey s))"
    using fds_okD(1)[OF assms(2)] by (auto simp: slots_ok_def owners_def)
  have slots: "slots_ok t" using psc_run_start_slots[OF assms(1)] fds_okD(1)[OF assms(2)] .
  from assms(1) acc have t: "t = s\<lparr>
       pkey := (pkey s)\<lparr>clients := (clients (pkey s))[i := (clients (pkey s) ! i)\<lparr>sock := fd\<rparr>]\<rparr>,
       acc := Waiting, threads := threads s @ [Created i]\<rparr>"
    by (simp add: psc_run_start_def)
  then have "thread_fds t = thread_fds s @ [fd]"
    using i th_fd_other[of i "threads s"] by simp
  then show ?thesis
    using fds_okD(2,3)[OF assms(2)] acc by (intro fds_okI[OF slots]) (auto simp: t)
qed

lemma client_begin_fds:
  assumes "sends_work L" "lwip_ok L opn" "client_begin L g t s = Some u" "fds_ok opn s"
  shows "fds_ok opn u"
proof -
  from assms(3) obtain i where th: "t < length (threads s)" "threads s ! t = Created i"
    by (auto simp: client_begin_def split: if_splits client_thread.splits)
  obtain n where n: "client_event L g PSC_CONN i (pkey s, net s) = (pkey s, n)" "opn n = opn (net s)"
    using client_event_works[OF assms(1,2)] by blast
  have slots: "slots_ok u" using client_begin_slots[OF assms(3)] fds_okD(1)[OF assms(4)] .
  from assms(3) th n have u: "u = set_thread t (Serving i (sock (clients (pkey s) ! i))) (s\<lparr>net := n\<rparr>)"
    by (simp add: client_begin_def)
  have "thread_fds u = thread_fds s"
    using th by (simp add: u set_thread_def concat_map_update_same)
  then show ?thesis
    using fds_okD(2,3)[OF assms(4)] n(2) by (intro fds_okI[OF slots]) (auto simp: u set_thread_def)
qed

lemma client_leave_fds:
  assumes "client_leave L g t s = Some u" "fds_ok opn s"
  shows "fds_ok opn u"
proof -
  from assms(1) obtain i fd where th: "t < length (threads s)" "threads s ! t = Serving i fd"
    and u: "u = set_thread t (Freed fd) (s\<lparr>pkey := psc_client_free i (pkey s)\<rparr>)"
    by (auto simp: client_leave_def client_event_def split: if_splits client_thread.splits)
  have "i \<notin> set (concat (map th_slot ((threads s)[t := Freed fd])))"
    using concat_map_update_drop(2)[of t "threads s" th_slot i "Freed fd" "acc_slot (acc s)"] th
      fds_okD(1)[OF assms(2)] by (auto simp: owners_def slots_ok_def)
  then have "thread_fds u = concat (map (th_fd (clients (pkey s))) ((threads s)[t := Freed fd]))"
    by (simp add: u set_thread_def psc_client_free_def th_fd_other)
  also have "\<dots> = thread_fds s"
    using th by (simp add: concat_map_update_same)
  finally have ts: "thread_fds u = thread_fds s" .
  have slots: "slots_ok u" using client_leave_slots[OF assms(1)] fds_okD(1)[OF assms(2)] .
  show ?thesis
    using fds_okD(2,3)[OF assms(2)] by (intro fds_okI[OF slots ts]) (auto simp: u set_thread_def)
qed

lemma client_close_fds:
  assumes "lwip_ok L opn" "client_close L t s = Some u" "fds_ok opn s"
  shows "fds_ok opn u"
proof -
  from assms(2) obtain fd where th: "t < length (threads s)" "threads s ! t = Freed fd"
    and u: "u = set_thread t Ended (s\<lparr>net := l_close L fd (net s)\<rparr>)"
    by (auto simp: client_close_def split: if_splits client_thread.splits)
  have "distinct (fds u)" "set (fds u) = set (fds s) - {fd}"
    using concat_map_update_drop[of t "threads s" "th_fd (clients (pkey s))" fd Ended "acc_fd (acc s)"] th assms(3)
    by (simp_all add: u fds_def set_thread_def fds_ok_def)
  moreover have "slots_ok u" using assms client_close_slots by (auto simp: fds_ok_def)
  ultimately show ?thesis
    using assms(1,3) by (auto simp: fds_ok_def u set_thread_def lwip_ok_def)
qed

lemma sys_step_fds:
  "sends_work L \<Longrightarrow> lwip_ok L opn \<Longrightarrow> sys_step L g x s = Some t \<Longrightarrow> fds_ok opn s \<Longrightarrow> fds_ok opn t"
  by (cases x) (auto intro: psc_run_accept_fds psc_run_alloc_fds psc_run_start_fds
      client_begin_fds client_leave_fds client_close_fds broadcast_fds)

lemma sys0_fds: "fds_ok opn (sys0 n)"
  using sys0_slots[of n] by (simp add: fds_ok_def fds_def sys0_def)

interpretation working_srv: inv_machine "\<lambda>s. \<exists>n. s = sys0 n"
  "\<lambda>s t. sends_work L \<and> lwip_ok L opn \<and> sys_next L s t" "fds_ok opn" for L opn
  by unfold_locales (auto elim!: sys_nextE intro: sys_step_fds sys0_fds)

lemma run_ops_working:
  assumes "sends_work L" "lwip_ok L opn"
  shows "run_ops L g xs s = Some t \<Longrightarrow>
    (\<lambda>s t. sends_work L \<and> lwip_ok L opn \<and> sys_next L s t)\<^sup>*\<^sup>* s t"
proof (induction xs arbitrary: s)
  case (Cons x xs)
  then obtain u where "sys_step L g x s = Some u" "run_ops L g xs u = Some t"
    by (auto simp: bind_eq_Some_conv)
  with Cons.IH assms show ?case
    by (intro converse_rtranclp_into_rtranclp[of _ s u]) (auto intro: sys_next.intros)
qed simp

section \<open>The broadcast\<close>

text \<open>Each descriptor has a stream of its own, and closing sends nothing.\<close>

definition out_ok :: "'s lwip \<Rightarrow> (int \<Rightarrow> 's \<Rightarrow> u8 list) \<Rightarrow> bool" where
  "out_ok L out \<longleftrightarrow> (\<forall>fd. send_ok (l_send L fd) (out fd))
     \<and> (\<forall>fd g s b. g \<noteq> fd \<longrightarrow> out g (snd (l_send L fd s b)) = out g s)
     \<and> (\<forall>fd g s. out g (l_close L fd s) = out g s)"

definition active :: "psc_key \<Rightarrow> nat \<Rightarrow> bool" where
  "active k i \<longleftrightarrow> slot_used k i \<and> sock (clients k ! i) \<noteq> -1"

text \<open>The client of slot \<open>i\<close> got the frame, or a beginning of it and its slot lost its socket.\<close>

definition delivered :: "(int \<Rightarrow> 's \<Rightarrow> u8 list) \<Rightarrow> u8 list \<Rightarrow> nat \<Rightarrow> psc_key \<times> 's \<Rightarrow> psc_key \<times> 's \<Rightarrow> bool" where
  "delivered out F i = (\<lambda>(k, s) (k', s'). let fd = sock (clients k ! i) in
     \<exists>j. out fd s' = out fd s @ take j F \<and>
       (if sock (clients k' ! i) = fd then j = length F else sock (clients k' ! i) = -1))"

lemma send_slot_delivers:
  assumes ok: "out_ok L out" and i: "i < length (clients k)" "active k i"
    and run: "psc_send_slot L m b i (k, s) = (k', s')"
  shows "delivered out (frame (m, b)) i (k, s) (k', s')"
    and "\<And>g. g \<noteq> sock (clients k ! i) \<Longrightarrow> out g s' = out g s"
    and "\<And>j. j \<noteq> i \<Longrightarrow> clients k' ! j = clients k ! j"
proof -
  let ?fd = "sock (clients k ! i)"
  obtain r t where send: "psc_sendmsg (l_send L ?fd) s m b = (r, t)" by fastforce
  have ok': "send_ok (l_send L ?fd) (out ?fd)" using ok by (simp add: out_ok_def)
  obtain j where j: "out ?fd t = out ?fd s @ take j (frame (m, b))"
      "r = None \<longrightarrow> j = length (frame (m, b))"
    using psc_sendmsg_taken[OF ok' send] by blast
  have others: "g \<noteq> ?fd \<Longrightarrow> out g t = out g s" for g
    using psc_sendmsg_keeps[of "out g" "l_send L ?fd" s m b] ok send by (simp add: out_ok_def)
  have k': "(k', s') = (if r = None then (k, t)
      else (k\<lparr>clients := (clients k)[i := (clients k ! i)\<lparr>sock := -1\<rparr>]\<rparr>, l_close L ?fd t))"
    using run i(2) send by (auto simp: psc_send_slot_def send_to_def active_def Let_def split: option.splits)
  have close: "out g (l_close L ?fd t) = out g t" for g
    using ok by (simp add: out_ok_def)
  show "delivered out (frame (m, b)) i (k, s) (k', s')"
    using k' j close i by (auto simp: delivered_def Let_def active_def split: if_splits)
  show "\<And>g. g \<noteq> ?fd \<Longrightarrow> out g s' = out g s"
    using k' others close by (auto split: if_splits)
  show "\<And>j. j \<noteq> i \<Longrightarrow> clients k' ! j = clients k ! j"
    using k' by (auto split: if_splits)
qed

lemma fold_send_delivers:
  assumes ok: "out_ok L out"
  shows "\<lbrakk>fold (psc_send_slot L m b) is (k, s) = (k', s'); distinct is;
      \<forall>i \<in> set is. i < length (clients k); inj_on (\<lambda>i. sock (clients k ! i)) {i \<in> set is. active k i}\<rbrakk>
    \<Longrightarrow> (\<forall>i \<in> set is. active k i \<longrightarrow> delivered out (frame (m, b)) i (k, s) (k', s'))
      \<and> (\<forall>g. (\<forall>i \<in> set is. active k i \<longrightarrow> sock (clients k ! i) \<noteq> g) \<longrightarrow> out g s' = out g s)
      \<and> (\<forall>j. j \<notin> set is \<longrightarrow> clients k' ! j = clients k ! j)"
proof (induction "is" arbitrary: k s)
  case (Cons i "is")
  obtain k1 s1 where slot: "psc_send_slot L m b i (k, s) = (k1, s1)" by fastforce
  with Cons.prems(1) have run: "fold (psc_send_slot L m b) is (k1, s1) = (k', s')" by simp
  note key = psc_send_slot_key[OF slot]
  show ?case
  proof (cases "active k i")
    case False
    with slot have "k1 = k" "s1 = s" by (auto simp: psc_send_slot_def active_def split: if_splits)
    moreover have "inj_on (\<lambda>i. sock (clients k ! i)) {i \<in> set is. active k i}"
      using Cons.prems(4) by (rule inj_on_subset) auto
    ultimately show ?thesis using Cons.IH[OF run] Cons.prems False by auto
  next
    case True
    have "i < length (clients k)" using Cons.prems(3) by simp
    note here = send_slot_delivers[OF ok this True slot]
    have same: "clients k1 ! j = clients k ! j \<and> (active k1 j \<longleftrightarrow> active k j)" if "j \<noteq> i" for j
      using here(3)[OF that] key by (simp add: active_def slot_used_def)
    have rest: "\<forall>j \<in> set is. clients k1 ! j = clients k ! j \<and> (active k1 j \<longleftrightarrow> active k j)"
      using same Cons.prems(2) by (metis distinct.simps(2))
    have inj: "inj_on (\<lambda>j. sock (clients k1 ! j)) {j \<in> set is. active k1 j}"
      using Cons.prems(4) rest by (auto simp: inj_on_def)
    have bounds: "\<forall>j \<in> set is. j < length (clients k1)" using Cons.prems(3) key by simp
    have dis: "distinct is" "i \<notin> set is" using Cons.prems(2) by auto
    note IH = Cons.IH[OF run dis(1) bounds inj]
    have fresh: "\<forall>j \<in> set is. active k j \<longrightarrow> sock (clients k ! j) \<noteq> sock (clients k ! i)"
      using Cons.prems(4) True dis(2) by (auto simp: inj_on_def)
    have first: "delivered out (frame (m, b)) i (k, s) (k', s')"
      using here(1) IH fresh rest dis(2) by (auto simp: delivered_def Let_def)
    have later: "delivered out (frame (m, b)) j (k, s) (k', s')" if "j \<in> set is" "active k j" for j
    proof -
      have "delivered out (frame (m, b)) j (k1, s1) (k', s')" using IH that rest by blast
      then show ?thesis using here(2) fresh rest that by (auto simp: delivered_def Let_def)
    qed
    have "out g s' = out g s" if "\<forall>j \<in> set (i # is). active k j \<longrightarrow> sock (clients k ! j) \<noteq> g" for g
      using IH here(2)[of g] rest that True by auto
    then show ?thesis using first later IH dis(2) same by auto
  qed
qed simp

section \<open>A network for the witnesses\<close>

text \<open>
  Three descriptors, 0 to 2, the lowest free one accepted first (as lwIP does). \<open>t_ok\<close> is a script:
  whether each send to come succeeds; when it is used up they all do.
\<close>

record toy =
  t_open :: "int list"
  t_out :: "int \<Rightarrow> u8 list"
  t_ok :: "bool list"

definition toy_accept :: "toy \<Rightarrow> int \<times> toy" where
  "toy_accept n = (if 1 \<notin> set (t_open n) then (1, n\<lparr>t_open := 1 # t_open n\<rparr>)
     else if 2 \<notin> set (t_open n) then (2, n\<lparr>t_open := 2 # t_open n\<rparr>) else (-1, n))"

definition toy_send :: "int \<Rightarrow> toy send_fn" where
  "toy_send fd n b =
     (if t_ok n \<noteq> [] \<and> \<not> hd (t_ok n) then (TxErr EIO, n\<lparr>t_ok := tl (t_ok n)\<rparr>)
      else (TxSent (length b), n\<lparr>t_ok := tl (t_ok n), t_out := (t_out n)(fd := t_out n fd @ b)\<rparr>))"

definition toy_net :: "toy lwip" where
  "toy_net = \<lparr>l_accept = toy_accept, l_send = toy_send,
     l_close = (\<lambda>fd n. n\<lparr>t_open := removeAll fd (t_open n)\<rparr>)\<rparr>"

definition toy0 :: "bool list \<Rightarrow> toy" where
  "toy0 script = \<lparr>t_open = [0], t_out = (\<lambda>_. []), t_ok = script\<rparr>"

lemma toy_net_simps [simp]:
  "l_accept toy_net = toy_accept" "l_send toy_net = toy_send"
  "l_close toy_net fd n = n\<lparr>t_open := removeAll fd (t_open n)\<rparr>"
  by (simp_all add: toy_net_def)

lemma toy_lwip_ok: "lwip_ok toy_net (\<lambda>n. set (t_open n))"
  by (auto simp: lwip_ok_def toy_accept_def toy_send_def)

lemma toy_out_ok: "out_ok toy_net (\<lambda>fd n. t_out n fd)"
  by (auto simp: out_ok_def send_ok_def toy_send_def)

text \<open>The same network when sending never fails.\<close>

definition good_net :: "toy lwip" where
  "good_net = toy_net\<lparr>l_send := \<lambda>fd n b. (TxSent (length b), n\<lparr>t_out := (t_out n)(fd := t_out n fd @ b)\<rparr>)\<rparr>"

lemma good_net_ok: "sends_work good_net" "lwip_ok good_net (\<lambda>n. set (t_open n))"
  by (auto simp: good_net_def sends_work_def send_live_def lwip_ok_def toy_accept_def)

lemma toy_sendall:
  assumes "t_ok n = True # r" "b \<noteq> []"
  shows "psc_sendall (toy_send fd) n b = (None, n\<lparr>t_ok := r, t_out := (t_out n)(fd := t_out n fd @ b)\<rparr>)"
  using assms by (simp add: psc_sendall.simps[of "toy_send fd" n] psc_sendall.simps[of _ _ "[]"] toy_send_def)

lemma toy_sendmsg_ok:
  assumes "t_ok n = True # True # r" "b \<noteq> []"
  shows "psc_sendmsg (toy_send fd) n m b =
    (None, n\<lparr>t_ok := r, t_out := (t_out n)(fd := t_out n fd @ frame (m, b))\<rparr>)"
proof -
  have "header_bytes h \<noteq> []" for h
    using header_bytes_length[of h] by (metis list.size(3) zero_neq_numeral)
  with assms show ?thesis
    by (simp add: psc_sendmsg_def psc_sendhead_def toy_sendall frame_header)
qed

lemma toy_sendmsg_fail:
  assumes "t_ok n = False # r"
  shows "psc_sendmsg (toy_send fd) n m b = (Some EIO, n\<lparr>t_ok := r\<rparr>)"
proof -
  have "header_bytes h \<noteq> []" for h
    using header_bytes_length[of h] by (metis list.size(3) zero_neq_numeral)
  with assms show ?thesis
    by (simp add: psc_sendmsg_def psc_sendhead_def psc_sendall.simps[of "toy_send fd" n] toy_send_def)
qed

lemma bit_slot_bit: "bit (slot_bit i) j \<longleftrightarrow> j = i \<and> i < 32"
  by (auto simp: slot_bit_def bit_simps)

lemma four_slots: "[0..<4] = [0, 1, 2, 3]" "replicate 4 x = [x, x, x, x]"
  by (simp_all add: upt_rec numeral_eq_Suc)

lemmas server_run = psc_run_accept_def psc_run_alloc_def psc_run_start_def client_begin_def
  client_leave_def client_close_def broadcast_def psc_send_def psc_send_slot_def psc_client_alloc_def
  psc_client_free_def client_event_def psc_send_one_def send_to_def set_thread_def sys0_def key0_def
  toy0_def toy_accept_def slot_used_bit bit_slot_bit bit_alloc bit_free four_slots toy_sendmsg_ok toy_sendmsg_fail

lemma le32_not_Nil: "le32 w \<noteq> []"
  by (simp add: le32_def)

section \<open>Properties\<close>

text \<open>
  Property C11 (invariant): in every reachable state of the server, whatever the network does and
  however the threads interleave, a bit of the bitmap is set exactly while the accept loop or one
  client thread owns that slot; no slot has two owners, there are at most four, and a new client is
  turned away exactly when there are four.
\<close>

theorem server_slots:
  assumes "run_ops L g xs (sys0 n) = Some s"
  shows "distinct (owners s) \<and> set (owners s) \<subseteq> {..<PSC_MAX_CLIENTS}
    \<and> (\<forall>i. bit (clients_used (pkey s)) i \<longleftrightarrow> i \<in> set (owners s))
    \<and> (fst (psc_client_alloc (pkey s)) = None \<longleftrightarrow> length (owners s) = PSC_MAX_CLIENTS)"
proof -
  have ok: "slots_ok s"
    using srv.inv_reachable[OF _ run_ops_reachable[OF assms]] by blast
  then have own: "distinct (owners s)" "set (owners s) \<subseteq> {..<PSC_MAX_CLIENTS}"
    "\<And>i. bit (clients_used (pkey s)) i \<longleftrightarrow> i \<in> set (owners s)"
    by (auto simp: slots_ok_def)
  have "fst (psc_client_alloc (pkey s)) = None \<longleftrightarrow> {..<PSC_MAX_CLIENTS} \<subseteq> set (owners s)"
    unfolding psc_client_alloc_def by (subst alloc_from_None) (auto simp: list_all_iff own(3))
  also have "\<dots> \<longleftrightarrow> card (set (owners s)) = PSC_MAX_CLIENTS"
    using own(2) by (metis card_lessThan card_subset_eq finite_lessThan subset_antisym)
  finally show ?thesis using own by (simp add: distinct_card)
qed

theorem server_slots_witness:
  "\<exists>s. run_ops good_net 7 [Accept, Alloc] (sys0 (toy0 [])) = Some s
    \<and> distinct (owners s) \<and> (\<forall>i. bit (clients_used (pkey s)) i \<longleftrightarrow> i \<in> set (owners s))"
proof -
  obtain s where "run_ops good_net 7 [Accept, Alloc] (sys0 (toy0 [])) = Some s"
    by (simp add: server_run good_net_def toy_net_def)
  with server_slots[OF this] show ?thesis by blast
qed

text \<open>
  Property C12 (safety): as long as no send fails, every socket the server holds is open and held by
  one of its threads only, in every reachable state: a client thread closes its own socket, once.
\<close>

theorem sockets_owned:
  assumes "sends_work L" "lwip_ok L opn" "run_ops L g xs (sys0 n) = Some s"
  shows "distinct (fds s) \<and> set (fds s) \<subseteq> opn (net s)"
  using working_srv.inv_reachable[OF _ run_ops_working[OF assms]] by (auto simp: fds_ok_def)

theorem sockets_owned_witness:
  "\<exists>s. run_ops good_net 7 [Accept, Alloc] (sys0 (toy0 [])) = Some s
    \<and> distinct (fds s) \<and> set (fds s) \<subseteq> set (t_open (net s))"
proof -
  obtain s where "run_ops good_net 7 [Accept, Alloc] (sys0 (toy0 [])) = Some s"
    by (simp add: server_run good_net_def toy_net_def)
  with sockets_owned[OF good_net_ok this] show ?thesis by blast
qed





end
