(* ===== verification/Tftp_Handler.thy ===== *)
theory Tftp_Handler imports Prelude begin

text \<open>
  \<^verbatim>\<open>tftp_handler.c\<close>: the callbacks of the TFTP server on the SD card. There is one file object, the
  static \<open>fd\<close>, so a handle carries no data. The volume and that file object are a state of FatFs,
  whose functions are parameters; what the code relies on them for is \<open>fatfs_ok\<close>.
\<close>

datatype fa_flag = FA_READ | FA_WRITE | FA_OPEN_EXISTING | FA_OPEN_ALWAYS

text \<open>FRESULT 0 is success. \<open>f_write\<close> also returns the number of bytes written.\<close>

abbreviation (input) FR_OK :: nat where "FR_OK \<equiv> 0"

record 'd fatfs =
  f_open :: "u8 list \<Rightarrow> fa_flag list \<Rightarrow> 'd \<Rightarrow> nat \<times> 'd"
  f_close :: "'d \<Rightarrow> nat \<times> 'd"
  f_read :: "nat \<Rightarrow> 'd \<Rightarrow> nat \<times> u8 list \<times> 'd"
  f_write :: "u8 list \<Rightarrow> 'd \<Rightarrow> nat \<times> nat \<times> 'd"

section \<open>The callbacks\<close>

definition tftp_sdcard_open :: "'d fatfs \<Rightarrow> u8 list \<Rightarrow> u8 list \<Rightarrow> bool \<Rightarrow> 'd \<Rightarrow> unit option \<times> 'd" where
  "tftp_sdcard_open F fname mode write d =
     (if mode \<noteq> ascii ''octet'' then (None, d)
      else case f_open F fname (if write then [FA_OPEN_ALWAYS, FA_WRITE] else [FA_OPEN_EXISTING, FA_READ]) d of
        (res, d') \<Rightarrow> (if res = FR_OK then Some () else None, d'))"

definition tftp_sdcard_close :: "'d fatfs \<Rightarrow> 'd \<Rightarrow> 'd" where
  "tftp_sdcard_close F d = snd (f_close F d)"

definition tftp_sdcard_read :: "'d fatfs \<Rightarrow> nat \<Rightarrow> 'd \<Rightarrow> u8 list option \<times> 'd" where
  "tftp_sdcard_read F bytes d = (case f_read F bytes d of
     (res, bs, d') \<Rightarrow> (if res \<noteq> FR_OK then None else Some bs, d'))"

text \<open>A pbuf is a chain of segments; the loop stops when nothing is left in the chain.\<close>

fun tftp_sdcard_write :: "'d fatfs \<Rightarrow> u8 list list \<Rightarrow> 'd \<Rightarrow> bool \<times> 'd" where
  "tftp_sdcard_write F [] d = (True, d)"
| "tftp_sdcard_write F (seg # segs) d =
     (if concat (seg # segs) = [] then (True, d)
      else if seg = [] then tftp_sdcard_write F segs d
      else case f_write F seg d of (res, n, d') \<Rightarrow>
        if res \<noteq> FR_OK then (False, d')
        else if n \<noteq> length seg then (False, d')
        else tftp_sdcard_write F segs d')"

section \<open>What the code relies on\<close>

text \<open>
  FatFs as documented, on a card that works: \<open>vol\<close> maps the names on the volume to their contents,
  \<open>cur\<close> is the open file and its position. \<open>FA_OPEN_ALWAYS\<close> opens an existing file as it is or
  creates an empty one; \<open>FA_OPEN_EXISTING\<close> fails when there is none; both start at position 0;
  writing replaces the bytes at the position.
\<close>

definition overwrite :: "u8 list \<Rightarrow> nat \<Rightarrow> u8 list \<Rightarrow> u8 list" where
  "overwrite c n bs = take n c @ bs @ drop (n + length bs) c"

definition fatfs_ok :: "'d fatfs \<Rightarrow> ('d \<Rightarrow> u8 list \<rightharpoonup> u8 list) \<Rightarrow> ('d \<Rightarrow> (u8 list \<times> nat) option) \<Rightarrow> bool" where
  "fatfs_ok F vol cur \<longleftrightarrow>
     (\<forall>d p. \<exists>d'. f_open F p [FA_OPEN_ALWAYS, FA_WRITE] d = (FR_OK, d') \<and> cur d' = Some (p, 0)
        \<and> vol d' = (vol d)(p \<mapsto> (case vol d p of None \<Rightarrow> [] | Some c \<Rightarrow> c)))
   \<and> (\<forall>d p c. vol d p = Some c \<longrightarrow>
        (\<exists>d'. f_open F p [FA_OPEN_EXISTING, FA_READ] d = (FR_OK, d') \<and> cur d' = Some (p, 0) \<and> vol d' = vol d))
   \<and> (\<forall>d p. vol d p = None \<longrightarrow> fst (f_open F p [FA_OPEN_EXISTING, FA_READ] d) \<noteq> FR_OK)
   \<and> (\<forall>d p n c k. cur d = Some (p, n) \<longrightarrow> vol d p = Some c \<longrightarrow>
        (\<exists>d'. f_read F k d = (FR_OK, take k (drop n c), d') \<and> vol d' = vol d
          \<and> cur d' = Some (p, n + length (take k (drop n c)))))
   \<and> (\<forall>d p n c bs. cur d = Some (p, n) \<longrightarrow> vol d p = Some c \<longrightarrow>
        (\<exists>d'. f_write F bs d = (FR_OK, length bs, d') \<and> cur d' = Some (p, n + length bs)
          \<and> vol d' = (vol d)(p \<mapsto> overwrite c n bs)))
   \<and> (\<forall>d. vol (snd (f_close F d)) = vol d)"

lemma fatfs_okD:
  assumes "fatfs_ok F vol cur"
  shows "\<exists>d'. f_open F p [FA_OPEN_ALWAYS, FA_WRITE] d = (FR_OK, d') \<and> cur d' = Some (p, 0)
        \<and> vol d' = (vol d)(p \<mapsto> (case vol d p of None \<Rightarrow> [] | Some c \<Rightarrow> c))"
    and "vol d p = Some c \<Longrightarrow>
        \<exists>d'. f_open F p [FA_OPEN_EXISTING, FA_READ] d = (FR_OK, d') \<and> cur d' = Some (p, 0) \<and> vol d' = vol d"
    and "cur d = Some (p, n) \<Longrightarrow> vol d p = Some c \<Longrightarrow>
        \<exists>d'. f_read F k d = (FR_OK, take k (drop n c), d') \<and> vol d' = vol d
          \<and> cur d' = Some (p, n + length (take k (drop n c)))"
    and "cur d = Some (p, n) \<Longrightarrow> vol d p = Some c \<Longrightarrow>
        \<exists>d'. f_write F bs d = (FR_OK, length bs, d') \<and> cur d' = Some (p, n + length bs)
          \<and> vol d' = (vol d)(p \<mapsto> overwrite c n bs)"
    and "vol (snd (f_close F d)) = vol d"
  using assms unfolding fatfs_ok_def by meson+

lemma overwrite_append:
  assumes "n \<le> length c"
  shows "overwrite (overwrite c n a) (n + length a) b = overwrite c n (a @ b)"
  using assms by (simp add: overwrite_def algebra_simps)

lemma overwrite_Nil [simp]: "overwrite c n [] = c"
  by (simp add: overwrite_def)

lemma overwrite_length: "n \<le> length c \<Longrightarrow> n + length bs \<le> length (overwrite c n bs)"
  by (simp add: overwrite_def)

text \<open>The segmentation of a pbuf does not matter: the bytes of the whole chain are written.\<close>

lemma sdcard_write_chain:
  assumes ok: "fatfs_ok F vol cur"
  shows "cur d = Some (p, n) \<Longrightarrow> vol d p = Some c \<Longrightarrow> n \<le> length c \<Longrightarrow>
    \<exists>d'. tftp_sdcard_write F segs d = (True, d') \<and> cur d' = Some (p, n + length (concat segs))
      \<and> vol d' = (vol d)(p \<mapsto> overwrite c n (concat segs))"
proof (induction segs arbitrary: d n c)
  case Nil
  then show ?case by auto
next
  case (Cons seg segs)
  show ?case
  proof (cases "seg = []")
    case True
    show ?thesis
    proof (cases "concat segs = []")
      case none: True
      with True have "tftp_sdcard_write F (seg # segs) d = (True, d)" by simp
      moreover have "vol d = (vol d)(p \<mapsto> c)" using Cons.prems(2) by auto
      moreover have "concat (seg # segs) = []" using none True by simp
      ultimately show ?thesis using Cons.prems(1)
        by (simp del: fun_upd_apply concat.simps concat_eq_Nil_conv)
    next
      case False
      with True have "tftp_sdcard_write F (seg # segs) d = tftp_sdcard_write F segs d" by auto
      then show ?thesis using Cons.IH[OF Cons.prems] True by simp
    qed
  next
    case False
    obtain d1 where d1: "f_write F seg d = (FR_OK, length seg, d1)" "cur d1 = Some (p, n + length seg)"
      "vol d1 = (vol d)(p \<mapsto> overwrite c n seg)"
      using fatfs_okD(4)[OF ok Cons.prems(1,2)] by blast
    have "vol d1 p = Some (overwrite c n seg)" using d1(3) by simp
    from Cons.IH[OF d1(2) this overwrite_length[OF Cons.prems(3)]]
    obtain d2 where d2: "tftp_sdcard_write F segs d1 = (True, d2)"
      "cur d2 = Some (p, n + length seg + length (concat segs))"
      "vol d2 = (vol d1)(p \<mapsto> overwrite (overwrite c n seg) (n + length seg) (concat segs))"
      by blast
    have "tftp_sdcard_write F (seg # segs) d = (True, d2)" using d1(1) d2(1) False by simp
    moreover have "vol d2 = (vol d)(p \<mapsto> overwrite c n (concat (seg # segs)))"
      using d1(3) d2(3) by (simp add: overwrite_append[OF Cons.prems(3)])
    moreover have "cur d2 = Some (p, n + length (concat (seg # segs)))" using d2(2) by (simp add: add.assoc)
    ultimately show ?thesis by blast
  qed
qed

section \<open>A card for the witnesses\<close>

type_synonym card = "(u8 list \<rightharpoonup> u8 list) \<times> (u8 list \<times> nat) option"

definition card_fs :: "card fatfs" where
  "card_fs = \<lparr>
     f_open = (\<lambda>p fl (v, cu).
       if FA_OPEN_ALWAYS \<in> set fl then (0, (v(p \<mapsto> (case v p of None \<Rightarrow> [] | Some c \<Rightarrow> c)), Some (p, 0)))
       else if v p = None then (4, (v, cu)) else (0, (v, Some (p, 0)))),
     f_close = (\<lambda>(v, cu). (0, (v, None))),
     f_read = (\<lambda>k (v, cu). case cu of None \<Rightarrow> (9, [], (v, cu)) | Some (p, n) \<Rightarrow>
       (case v p of None \<Rightarrow> (9, [], (v, cu))
        | Some c \<Rightarrow> (0, take k (drop n c), (v, Some (p, n + length (take k (drop n c))))))),
     f_write = (\<lambda>bs (v, cu). case cu of None \<Rightarrow> (9, 0, (v, cu)) | Some (p, n) \<Rightarrow>
       (case v p of None \<Rightarrow> (9, 0, (v, cu))
        | Some c \<Rightarrow> (0, length bs, (v(p \<mapsto> overwrite c n bs), Some (p, n + length bs)))))\<rparr>"

lemma card_fs_ok: "fatfs_ok card_fs fst snd"
  unfolding fatfs_ok_def card_fs_def by (auto split: option.splits)

end
