(* ===== verification/C_Float.thy ===== *)
theory C_Float imports Complex_Main "HOL-Library.Log_Nat" Prelude begin

text \<open>
  The \<open>float\<close> and \<open>double\<close> arithmetic of the code. A value is a rational number and an operation is
  the exact operation rounded to the format's precision, to the nearest value and to the even one
  between two (IEEE 754, the default of the target). The exponent range is not limited: every
  value of this code lies between \<open>2 powi (-126)\<close> and \<open>2 ^ 127\<close> or is zero, far from where a
  \<open>float\<close> ends. A conversion to an integer type cuts towards zero and is undefined, here \<open>None\<close>,
  when the result does not fit (C11 6.3.1.4).
\<close>

section \<open>Rounding\<close>

text \<open>Words are converted by way of their integers.\<close>

declare of_int_sint [simp del] of_int_uint [simp del]

definition round_even :: "rat \<Rightarrow> int" where
  "round_even x = (let f = \<lfloor>x\<rfloor>; d = x - of_int f in
     if d < 1/2 then f else if d > 1/2 then f + 1 else if even f then f else f + 1)"

text \<open>The position of the leading binary digit of a positive rational.\<close>

definition flog2 :: "rat \<Rightarrow> int" where
  "flog2 x = (case quotient_of x of (n, d) \<Rightarrow>
     let k = int (floorlog 2 (nat n)) - int (floorlog 2 (nat d))
     in if 2 powi k \<le> x then k else k - 1)"

text \<open>Rounding to \<open>p\<close> significant binary digits.\<close>

definition fround :: "nat \<Rightarrow> rat \<Rightarrow> rat" where
  "fround p x = (if x = 0 then 0
     else let u = 2 powi (flog2 \<bar>x\<bar> + 1 - int p) in of_int (round_even (x / u)) * u)"

text \<open>\<open>float\<close> has 24 digits, \<open>double\<close> has 53.\<close>

definition f32 :: "rat \<Rightarrow> rat" where "f32 = fround 24"

definition f64 :: "rat \<Rightarrow> rat" where "f64 = fround 53"

text \<open>Conversion to an integer: towards zero, in the range given.\<close>

definition rtrunc :: "rat \<Rightarrow> int" where
  "rtrunc x = (if 0 \<le> x then \<lfloor>x\<rfloor> else \<lceil>x\<rceil>)"

definition to_s16 :: "rat \<Rightarrow> u16 option" where
  "to_s16 x = (if rtrunc x \<in> {- 32768..32767} then Some (word_of_int (rtrunc x)) else None)"

definition to_u32 :: "rat \<Rightarrow> u32 option" where
  "to_u32 x = (if rtrunc x \<in> {0..4294967295} then Some (word_of_int (rtrunc x)) else None)"

definition to_s32 :: "rat \<Rightarrow> u32 option" where
  "to_s32 x = (if rtrunc x \<in> {- 2147483648..2147483647} then Some (word_of_int (rtrunc x)) else None)"

section \<open>Laws of rounding\<close>

text \<open>
  Interface: what the position computation relies on. Rounding is monotone, symmetric, idempotent
  and exact on the integers of the significand.
\<close>

locale rounding =
  fixes rnd :: "rat \<Rightarrow> rat" and lim :: int
  assumes rnd_mono: "x \<le> y \<Longrightarrow> rnd x \<le> rnd y"
    and rnd_uminus: "rnd (- x) = - rnd x"
    and rnd_rnd: "rnd (rnd x) = rnd x"
    and rnd_int: "\<bar>n\<bar> \<le> lim \<Longrightarrow> rnd (of_int n) = of_int n"
    and lim_pos: "1 \<le> lim"
begin

lemma rnd_0: "rnd 0 = 0"
  using rnd_int[of 0] lim_pos by simp

lemma rnd_1: "rnd 1 = 1"
  using rnd_int[of 1] lim_pos by simp

lemma rnd_nonneg: "0 \<le> x \<Longrightarrow> 0 \<le> rnd x"
  using rnd_mono[of 0 x] by (simp add: rnd_0)

lemma rnd_abs: "\<bar>rnd x\<bar> = rnd \<bar>x\<bar>"
  using rnd_nonneg[of x] rnd_nonneg[of "- x"] rnd_uminus[of x] by (cases "0 \<le> x") auto

lemma rnd_abs_le: "\<bar>x\<bar> \<le> y \<Longrightarrow> \<bar>rnd x\<bar> \<le> rnd y"
  by (simp add: rnd_abs rnd_mono)

lemma rnd_le_int: "x \<le> of_int n \<Longrightarrow> \<bar>n\<bar> \<le> lim \<Longrightarrow> rnd x \<le> of_int n"
  using rnd_mono[of x "of_int n"] by (simp add: rnd_int)

lemma rnd_abs_le_int: "\<bar>x\<bar> \<le> of_int n \<Longrightarrow> \<bar>n\<bar> \<le> lim \<Longrightarrow> \<bar>rnd x\<bar> \<le> of_int n"
  by (simp add: rnd_abs rnd_le_int)

text \<open>Adding something non-negative to a value of the format does not make it smaller.\<close>

lemma rnd_add_ge: "rnd a = a \<Longrightarrow> 0 \<le> b \<Longrightarrow> a \<le> rnd (a + b)"
  using rnd_mono[of a "a + b"] by simp

text \<open>
  The difference over sum of four channels: whatever is rounded on the way, the quotient of two
  partial sums and the sum, added in the code's order, has an absolute value of at most one.
\<close>

lemma quotient_le_1: "\<bar>n\<bar> \<le> s \<Longrightarrow> 0 < s \<Longrightarrow> \<bar>rnd (n / s)\<bar> \<le> 1"
proof -
  assume n: "\<bar>n\<bar> \<le> s" and s: "0 < s"
  have "\<bar>n / s\<bar> \<le> 1"
    using n s by (simp only: abs_divide abs_of_pos divide_le_eq_1_pos)
  then show ?thesis using rnd_abs_le[of "n / s" 1] by (simp only: rnd_1)
qed

lemma sum_ge_pair:
  assumes "rnd a = a" "rnd b = b" "rnd c = c" "rnd d = d" "0 \<le> a" "0 \<le> b" "0 \<le> c" "0 \<le> d"
  defines "s \<equiv> rnd (rnd (rnd (a + b) + c) + d)"
  shows "rnd (a + d) \<le> s" "rnd (b + c) \<le> s" "rnd (a + b) \<le> s" "rnd (c + d) \<le> s"
proof -
  have ab: "a \<le> rnd (a + b)" "b \<le> rnd (a + b)"
    using rnd_add_ge[of a b] rnd_add_ge[of b a] assms by (simp_all add: add.commute)
  have abc: "rnd (a + b) \<le> rnd (rnd (a + b) + c)" "c \<le> rnd (rnd (a + b) + c)"
    using rnd_add_ge[of "rnd (a + b)" c] rnd_add_ge[of c "rnd (a + b)"] assms ab
    by (simp_all add: add.commute rnd_rnd)
  have abcd: "rnd (rnd (a + b) + c) \<le> s"
    unfolding s_def using assms by (intro rnd_add_ge) (simp_all add: rnd_rnd)
  show "rnd (a + d) \<le> s" "rnd (c + d) \<le> s"
    unfolding s_def using ab abc by (intro rnd_mono; linarith)+
  show "rnd (a + b) \<le> s" using abc abcd by linarith
  have "rnd (b + c) \<le> rnd (rnd (a + b) + c)" using ab by (intro rnd_mono) linarith
  with abcd show "rnd (b + c) \<le> s" by linarith
qed

end

section \<open>The formats obey them\<close>

lemma round_even_int [simp]: "round_even (of_int n) = n"
  by (simp add: round_even_def)

lemma round_even_bounds: "\<lfloor>x\<rfloor> \<le> round_even x" "round_even x \<le> \<lfloor>x\<rfloor> + 1"
  by (auto simp: round_even_def Let_def)

lemma round_even_mono: "x \<le> y \<Longrightarrow> round_even x \<le> round_even y"
proof -
  assume "x \<le> y"
  then consider "\<lfloor>x\<rfloor> = \<lfloor>y\<rfloor>" | "\<lfloor>x\<rfloor> + 1 \<le> \<lfloor>y\<rfloor>"
    using floor_mono[of x y] by linarith
  then show ?thesis
  proof cases
    case 1
    with \<open>x \<le> y\<close> show ?thesis by (auto simp: round_even_def Let_def)
  next
    case 2
    then show ?thesis using round_even_bounds[of x] round_even_bounds[of y] by linarith
  qed
qed

lemma round_even_uminus: "round_even (- x) = - round_even x"
proof (cases "x = of_int \<lfloor>x\<rfloor>")
  case True
  then obtain n where "x = of_int n" by blast
  then show ?thesis using round_even_int[of "- n"] by simp
next
  case False
  then have "\<lfloor>- x\<rfloor> = - \<lfloor>x\<rfloor> - 1"
    by linarith
  then show ?thesis by (auto simp: round_even_def Let_def)
qed

lemma powi_le_iff: "(2 :: rat) powi a \<le> 2 powi b \<longleftrightarrow> a \<le> b"
  using power_int_strict_increasing[of b a "2 :: rat"] power_int_increasing[of a b "2 :: rat"]
  by linarith

lemma powi_less_iff: "(2 :: rat) powi a < 2 powi b \<longleftrightarrow> a < b"
  using powi_le_iff[of b a] by linarith

lemma powi_pos [simp]: "0 < (2 :: rat) powi a"
  by simp

lemma flog2_bounds:
  assumes "0 < x"
  shows "2 powi (flog2 x) \<le> x" "x < 2 powi (flog2 x + 1)"
proof -
  obtain n d where q: "quotient_of x = (n, d)" by (cases "quotient_of x")
  have d: "0 < d" using quotient_of_denom_pos[OF q] .
  have x: "x = of_int n / of_int d" using quotient_of_div[OF q] .
  with assms d have n: "0 < n" by (simp add: zero_less_divide_iff)
  define a b where "a = floorlog 2 (nat n) - 1" and "b = floorlog 2 (nat d) - 1"
  have fl: "floorlog 2 (nat n) = a + 1" "floorlog 2 (nat d) = b + 1"
    using n d by (simp_all add: a_def b_def floorlog_def)
  have bn: "2 ^ a \<le> nat n" "nat n < 2 ^ (a + 1)" and bd: "2 ^ b \<le> nat d" "nat d < 2 ^ (b + 1)"
    using floorlog_bounds[of "nat n" 2] floorlog_bounds[of "nat d" 2] n d fl by simp_all
  have rn: "(2 :: rat) ^ a \<le> of_int n" "of_int n < (2 :: rat) ^ (a + 1)"
    using bn n by (metis of_nat_le_iff of_nat_less_iff of_nat_numeral of_nat_power of_int_of_nat_eq
      int_nat_eq order_less_imp_le)+
  have rd: "(2 :: rat) ^ b \<le> of_int d" "of_int d < (2 :: rat) ^ (b + 1)"
    using bd d by (metis of_nat_le_iff of_nat_less_iff of_nat_numeral of_nat_power of_int_of_nat_eq
      int_nat_eq order_less_imp_le)+
  define k where "k = int a - int b"
  have dpos: "0 < (of_int d :: rat)" using d by simp
  have pk: "(2 :: rat) powi k = 2 ^ a / 2 ^ b"
    by (simp add: k_def power_int_diff)
  have hi: "x < 2 powi (k + 1)"
  proof -
    have "of_int n < (2 :: rat) ^ (a + 1) / 2 ^ b * of_int d"
    proof -
      have "(2 :: rat) ^ (a + 1) \<le> 2 ^ (a + 1) / 2 ^ b * of_int d"
        using rd(1) by (simp add: field_simps)
      with rn(2) show ?thesis by linarith
    qed
    then show ?thesis
      using dpos by (simp add: x pk power_int_add divide_less_eq ac_simps)
  qed
  have lo: "2 powi (k - 1) \<le> x"
  proof -
    have "(2 :: rat) ^ a / 2 ^ (b + 1) * of_int d \<le> 2 ^ a"
      using rd(2) by (simp add: field_simps)
    with rn(1) have "(2 :: rat) ^ a / 2 ^ (b + 1) * of_int d \<le> of_int n" by linarith
    then show ?thesis
      using dpos by (simp add: x pk power_int_diff le_divide_eq)
  qed
  have "flog2 x = (if 2 powi k \<le> x then k else k - 1)"
    by (simp add: flog2_def q fl k_def)
  then show "2 powi (flog2 x) \<le> x" "x < 2 powi (flog2 x + 1)"
    using hi lo by (auto split: if_splits)
qed

lemma flog2_mono: "0 < x \<Longrightarrow> x \<le> y \<Longrightarrow> flog2 x \<le> flog2 y"
  using flog2_bounds(1)[of x] flog2_bounds(2)[of y] powi_less_iff[of "flog2 x" "flog2 y + 1"]
  by linarith

lemma flog2_le: "0 < x \<Longrightarrow> x \<le> 2 powi k \<Longrightarrow> flog2 x \<le> k"
  using flog2_bounds(1)[of x] powi_le_iff[of "flog2 x" k] by linarith

lemma flog2_less: "0 < x \<Longrightarrow> x < 2 powi k \<Longrightarrow> flog2 x < k"
  using flog2_bounds(1)[of x] powi_less_iff[of "flog2 x" k] by linarith

text \<open>Rounding a positive value stays within its binade.\<close>

lemma fround_pos:
  "0 < x \<Longrightarrow> fround p x = of_int (round_even (x / 2 powi (flog2 x + 1 - int p))) * 2 powi (flog2 x + 1 - int p)"
  by (simp add: fround_def Let_def)

lemma scaled_bounds:
  assumes "0 < x" "1 \<le> p"
  shows "2 ^ (p - 1) \<le> x / 2 powi (flog2 x + 1 - int p)" "x / 2 powi (flog2 x + 1 - int p) < 2 ^ p"
proof -
  let ?u = "2 powi (flog2 x + 1 - int p) :: rat"
  have "(2 :: rat) ^ (p - 1) * ?u = 2 powi (flog2 x)" "(2 :: rat) ^ p * ?u = 2 powi (flog2 x + 1)"
    using assms(2) by (simp_all flip: power_int_of_nat power_int_add add: of_nat_diff)
  then show "2 ^ (p - 1) \<le> x / ?u" "x / ?u < 2 ^ p"
    using flog2_bounds[OF assms(1)] by (simp_all only: pos_le_divide_eq pos_divide_less_eq powi_pos)
qed

lemma round_even_scaled:
  assumes "0 < x" "1 \<le> p"
  shows "2 ^ (p - 1) \<le> round_even (x / 2 powi (flog2 x + 1 - int p))"
    "round_even (x / 2 powi (flog2 x + 1 - int p)) \<le> 2 ^ p"
proof -
  let ?y = "x / 2 powi (flog2 x + 1 - int p)"
  have c: "of_int (2 ^ k) = (2 :: rat) ^ k" for k by simp
  have "of_int (2 ^ (p - 1)) \<le> ?y" "?y \<le> of_int (2 ^ p)"
    using scaled_bounds[OF assms] unfolding c by (simp_all only: order_less_imp_le)
  from this[THEN round_even_mono] show "2 ^ (p - 1) \<le> round_even ?y" "round_even ?y \<le> 2 ^ p"
    by (simp_all only: round_even_int)
qed

lemma fround_binade:
  assumes "0 < x" "1 \<le> p"
  shows "2 powi (flog2 x) \<le> fround p x" "fround p x \<le> 2 powi (flog2 x + 1)"
proof -
  let ?u = "2 powi (flog2 x + 1 - int p) :: rat"
  let ?r = "round_even (x / ?u)"
  have u: "(2 :: rat) ^ (p - 1) * ?u = 2 powi (flog2 x)" "(2 :: rat) ^ p * ?u = 2 powi (flog2 x + 1)"
    using assms(2) by (simp_all flip: power_int_of_nat power_int_add add: of_nat_diff)
  have r: "(2 :: rat) ^ (p - 1) \<le> of_int ?r" "of_int ?r \<le> (2 :: rat) ^ p"
    using round_even_scaled[OF assms]
    by (metis of_int_le_iff of_int_numeral of_int_power)+
  show "2 powi (flog2 x) \<le> fround p x" "fround p x \<le> 2 powi (flog2 x + 1)"
    using mult_right_mono[OF r(1), of ?u] mult_right_mono[OF r(2), of ?u]
    by (simp_all only: fround_pos[OF assms(1)] u order_less_imp_le powi_pos)
qed

lemma fround_uminus: "fround p (- x) = - fround p x"
  using round_even_uminus[of "x / 2 powi (flog2 \<bar>x\<bar> + 1 - int p)"]
  by (simp add: fround_def Let_def)

lemma fround_mono_pos:
  assumes "1 \<le> p" "0 < x" "x \<le> y"
  shows "fround p x \<le> fround p y"
proof (cases "flog2 x = flog2 y")
  case True
  let ?u = "2 powi (flog2 y + 1 - int p) :: rat"
  have "round_even (x / ?u) \<le> round_even (y / ?u)"
    using assms by (intro round_even_mono divide_right_mono) simp_all
  then have "of_int (round_even (x / ?u)) * ?u \<le> of_int (round_even (y / ?u)) * ?u"
    by (intro mult_right_mono) simp_all
  then show ?thesis
    using fround_pos[of x p] fround_pos[of y p] assms True by simp
next
  case False
  then have "flog2 x + 1 \<le> flog2 y" using flog2_mono[of x y] assms by simp
  then have "(2 :: rat) powi (flog2 x + 1) \<le> 2 powi (flog2 y)" by (simp only: powi_le_iff)
  then show ?thesis
    using fround_binade[of x p] fround_binade[of y p] assms by linarith
qed

lemma fround_0 [simp]: "fround p 0 = 0"
  by (simp add: fround_def)

lemma fround_nonneg: "1 \<le> p \<Longrightarrow> 0 \<le> x \<Longrightarrow> 0 \<le> fround p x"
  using fround_binade(1)[of x p] powi_pos[of "flog2 x"] by (cases "x = 0") (simp, linarith)

lemma fround_mono: "1 \<le> p \<Longrightarrow> x \<le> y \<Longrightarrow> fround p x \<le> fround p y"
proof -
  assume p: "1 \<le> p" and le: "x \<le> y"
  consider "0 < x" | "y < 0" | "x \<le> 0" "0 \<le> y" using le by linarith
  then show ?thesis
  proof cases
    case 1
    then show ?thesis using fround_mono_pos p le by blast
  next
    case 2
    then show ?thesis using fround_mono_pos[of p "- y" "- x"] p le by (simp add: fround_uminus)
  next
    case 3
    then have "0 \<le> fround p (- x)" "0 \<le> fround p y" using fround_nonneg p by simp_all
    then show ?thesis by (simp add: fround_uminus)
  qed
qed

text \<open>The values of the format are its fixed points.\<close>

lemma fround_value_pos:
  assumes "1 \<le> p" "0 < m" "m \<le> 2 ^ p"
  shows "fround p (of_int m * 2 powi k) = of_int m * 2 powi k"
proof -
  let ?x = "of_int m * 2 powi k :: rat"
  let ?e = "flog2 ?x"
  have x: "0 < ?x" using assms by simp
  have "?x \<le> 2 ^ p * 2 powi k"
    using assms(3) by (intro mult_right_mono) (metis of_int_le_iff of_int_numeral of_int_power, simp)
  also have "(2 :: rat) ^ p * 2 powi k = 2 powi (int p + k)" by (simp flip: power_int_of_nat add: power_int_add)
  finally have xk: "?x \<le> 2 powi (int p + k)" .
  then have e: "?e \<le> int p + k" using flog2_le x by blast
  have "\<exists>n. ?x / 2 powi (?e + 1 - int p) = of_int n"
  proof (cases "?e \<le> int p + k - 1")
    case True
    then obtain j where j: "k - (?e + 1 - int p) = int j" by (metis diff_ge_0_iff_ge zle_iff_zadd diff_add_cancel
      add.commute add_diff_eq zle_diff1_eq int_one_le_iff_zero_less nonneg_int_cases diff_diff_eq2 add_diff_cancel_right')
    have "?x / 2 powi (?e + 1 - int p) = of_int m * 2 powi (k - (?e + 1 - int p))"
      by (simp add: power_int_diff)
    also have "\<dots> = of_int (m * 2 ^ j)" by (simp add: j)
    finally show ?thesis by blast
  next
    case False
    with e have ek: "?e = int p + k" by linarith
    with xk flog2_bounds(1)[OF x] have "?x = 2 powi (int p + k)" by (metis order_antisym)
    moreover have "int p + k - (?e + 1 - int p) = int (p - 1)" using ek assms(1) by simp
    ultimately have "?x / 2 powi (?e + 1 - int p) = of_int (2 ^ (p - 1))"
      by (metis power_int_diff of_int_numeral of_int_power power_int_of_nat zero_neq_numeral)
    then show ?thesis by blast
  qed
  then obtain n where n: "?x / 2 powi (?e + 1 - int p) = of_int n" by blast
  have "of_int n * 2 powi (?e + 1 - int p) = ?x" by (simp flip: n)
  then show ?thesis by (simp only: fround_pos[OF x] n round_even_int)
qed

lemma fround_value: "1 \<le> p \<Longrightarrow> \<bar>m\<bar> \<le> 2 ^ p \<Longrightarrow> fround p (of_int m * 2 powi k) = of_int m * 2 powi k"
  using fround_value_pos[of p m k] fround_value_pos[of p "- m" k] fround_uminus[of p "of_int m * 2 powi k"]
  by (cases "m = 0"; cases "0 < m") auto

lemma fround_fround: "1 \<le> p \<Longrightarrow> fround p (fround p x) = fround p x"
proof -
  assume p: "1 \<le> p"
  have pos: "fround p (fround p y) = fround p y" if "0 < y" for y
  proof -
    let ?r = "round_even (y / 2 powi (flog2 y + 1 - int p))"
    have "0 \<le> (2 :: int) ^ (p - 1)" by simp
    then have "\<bar>?r\<bar> \<le> 2 ^ p" using round_even_scaled[OF that p] by linarith
    then show ?thesis by (simp only: fround_pos[OF that] fround_value[OF p])
  qed
  consider "x = 0" | "0 < x" | "0 < - x" by linarith
  then show ?thesis
    using pos[of x] pos[of "- x"] by cases (simp_all add: fround_uminus)
qed

lemma rounding_fround: "1 \<le> p \<Longrightarrow> rounding (fround p) (2 ^ p)"
  by unfold_locales
    (use fround_mono fround_uminus fround_fround fround_value[where k = 0] in simp_all)

interpretation f32: rounding f32 "2 ^ 24"
  unfolding f32_def by (rule rounding_fround) simp

interpretation f64: rounding f64 "2 ^ 53"
  unfolding f64_def by (rule rounding_fround) simp

section \<open>A \<open>float\<close> in memory\<close>

text \<open>
  The IEEE single format: a sign bit, eight bits of exponent with a bias of 127, and the 23 binary
  places after the leading one; zero is the word 0. (A negative zero and the values below
  \<open>2 powi (-126)\<close>, which have a format of their own, do not arise.)
\<close>

definition float_bits :: "rat \<Rightarrow> u32" where
  "float_bits x = (if x = 0 then 0
     else word_of_int ((if x < 0 then 2 ^ 31 else 0) + (flog2 \<bar>x\<bar> + 127) * 2 ^ 23
            + (\<lfloor>\<bar>x\<bar> / 2 powi (flog2 \<bar>x\<bar> - 23)\<rfloor> - 2 ^ 23)))"

definition float_value :: "u32 \<Rightarrow> rat" where
  "float_value w = (let n = uint w; e = n div 2 ^ 23 mod 2 ^ 8; m = n mod 2 ^ 23 in
     if n = 0 then 0
     else (if n div 2 ^ 31 = 1 then -1 else 1) * of_int (2 ^ 23 + m) * 2 powi (e - 150))"

lemma uint_in_range: "0 \<le> n \<Longrightarrow> n < 2 ^ 32 \<Longrightarrow> uint (word_of_int n :: u32) = n"
  by (simp add: uint_word_of_int)

lemma digit: "0 \<le> m \<Longrightarrow> m < P \<Longrightarrow> (m + k * P) div P = k \<and> (m + k * P) mod P = (m :: int)"
  by simp

lemma fields_of_sum:
  assumes "s = 0 \<or> s = (1 :: int)" "0 \<le> e" "e < 2 ^ 8" "0 \<le> m" "m < 2 ^ 23"
  defines "n \<equiv> s * 2 ^ 31 + e * 2 ^ 23 + m"
  shows "n div 2 ^ 31 = s" "n div 2 ^ 23 mod 2 ^ 8 = e" "n mod 2 ^ 23 = m" "0 \<le> n" "n < 2 ^ 32"
proof -
  have "n = m + (s * 2 ^ 8 + e) * 2 ^ 23" by (simp add: n_def algebra_simps)
  then have "n div 2 ^ 23 = s * 2 ^ 8 + e" "n mod 2 ^ 23 = m"
    using digit[OF assms(4,5)] by blast+
  moreover have "(s * 2 ^ 8 + e) mod 2 ^ 8 = e" using assms(2,3) by simp
  ultimately show "n div 2 ^ 23 mod 2 ^ 8 = e" "n mod 2 ^ 23 = m" by simp_all
  have "n = (e * 2 ^ 23 + m) + s * 2 ^ 31" by (simp add: n_def)
  moreover have "0 \<le> e * 2 ^ 23 + m" "e * 2 ^ 23 + m < 2 ^ 31" using assms(2-5) by simp_all
  ultimately show "n div 2 ^ 31 = s" "0 \<le> n" "n < 2 ^ 32" using assms(1) by auto
qed

lemma float_value_bits:
  assumes "f32 x = x" "x = 0 \<or> 2 powi (- 126) \<le> \<bar>x\<bar> \<and> \<bar>x\<bar> < 2 powi 128"
  shows "float_value (float_bits x) = x"
proof (cases "x = 0")
  case True
  then show ?thesis by (simp add: float_bits_def float_value_def)
next
  case False
  let ?e = "flog2 \<bar>x\<bar>"
  let ?u = "2 powi (?e - 23) :: rat"
  let ?r = "round_even (\<bar>x\<bar> / ?u)"
  have x: "0 < \<bar>x\<bar>" using False by simp
  have e24: "?e + 1 - int 24 = ?e - 23" by simp
  have "f32 \<bar>x\<bar> = \<bar>x\<bar>" using assms(1) f32.rnd_abs[of x] by simp
  then have xr: "\<bar>x\<bar> = of_int ?r * ?u"
    unfolding f32_def fround_pos[OF x] e24 by simp
  then have q: "\<lfloor>\<bar>x\<bar> / ?u\<rfloor> = ?r"
    using floor_of_int[of ?r] by (metis nonzero_mult_div_cancel_right power_int_not_zero zero_neq_numeral)
  have b: "2 ^ 23 \<le> ?r" "?r < 2 ^ 24"
  proof -
    show "2 ^ 23 \<le> ?r" using round_even_scaled(1)[OF x, of 24] unfolding e24 by simp
    have "(2 :: rat) ^ 24 * ?u = 2 powi (int 24) * ?u" by (simp only: power_int_of_nat)
    also have "\<dots> = 2 powi (int 24 + (?e - 23))" by (rule power_int_add[symmetric]) simp
    also have "int 24 + (?e - 23) = ?e + 1" by simp
    finally have "of_int ?r * ?u < 2 ^ 24 * ?u"
      using flog2_bounds(2)[OF x] xr by linarith
    then have "(of_int ?r :: rat) < 2 ^ 24" by (rule mult_right_less_imp_less) simp
    then have "(of_int ?r :: rat) < of_int (2 ^ 24)" by simp
    then show "?r < 2 ^ 24" by (simp only: of_int_less_iff)
  qed
  have "?e < 128" "- 126 \<le> ?e"
    using assms(2) False flog2_less[OF x, of 128] flog2_bounds(2)[OF x] powi_less_iff[of "- 126" "?e + 1"]
    by auto
  then have ee: "0 \<le> ?e + 127" "?e + 127 < 2 ^ 8" "0 < ?e + 127" by simp_all
  have m: "0 \<le> ?r - 2 ^ 23" "?r - 2 ^ 23 < 2 ^ 23" using b by simp_all
  let ?s = "if x < 0 then 1 else 0 :: int"
  let ?n = "?s * 2 ^ 31 + (?e + 127) * 2 ^ 23 + (?r - 2 ^ 23)"
  have s: "?s = 0 \<or> ?s = 1" by simp
  note f = fields_of_sum[OF s ee(1,2) m]
  have bits: "float_bits x = word_of_int ?n" using False by (simp add: float_bits_def q)
  have n: "uint (float_bits x) = ?n" unfolding bits by (rule uint_in_range[OF f(4,5)])
  have n0: "?n \<noteq> 0" using f(2) ee(3) by auto
  have "float_value (float_bits x) = (if ?s = 1 then -1 else 1) * of_int (2 ^ 23 + (?r - 2 ^ 23)) * 2 powi (?e + 127 - 150)"
    unfolding float_value_def Let_def n f(1-3) using n0 by (simp only: if_False)
  also have "\<dots> = (if x < 0 then -1 else 1) * (of_int ?r * ?u)" by simp
  also have "\<dots> = x" unfolding xr[symmetric] by simp
  finally show ?thesis .
qed

text \<open>\<open>htonf\<close> of \<^verbatim>\<open>local.h\<close>: the format's word in network order; in a message, its bytes.\<close>

definition htonf :: "rat \<Rightarrow> u32" where "htonf x = htonl (float_bits x)"

lemma le32_htonf: "le32 (htonf x) = be32 (float_bits x)"
  by (simp add: htonf_def le32_htonl)

end
