(* ===== verification/I2c_Devices.thy ===== *)
theory I2c_Devices imports Control C_Float begin

text \<open>
  \<^verbatim>\<open>i2c_devices.c\<close>: the devices on the I2C bus behind two port expanders: clock chips, the EEPROM with
  the position scale factors and the MAC address, and the voltage, current and temperature monitors.
  The waits for a free bus end (they are part of the transfer).
\<close>

declare of_int_sint [simp del] of_int_uint [simp del]

section \<open>Transfers\<close>

abbreviation (input) I2C_PORTEXP0_ADDR :: u8 where "I2C_PORTEXP0_ADDR \<equiv> 0x70"
abbreviation (input) I2C_PORTEXP1_ADDR :: u8 where "I2C_PORTEXP1_ADDR \<equiv> 0x71"
abbreviation (input) IIC_EEPROM_ADDR :: u8 where "IIC_EEPROM_ADDR \<equiv> 0x50"
abbreviation (input) IIC_MAC_REG :: u8 where "IIC_MAC_REG \<equiv> 0xFA"
abbreviation (input) EEPROM_KX_ADDR :: u8 where "EEPROM_KX_ADDR \<equiv> 0x24"
abbreviation (input) XST_SUCCESS :: int where "XST_SUCCESS \<equiv> 0"

definition i2c_write :: "u8 list \<Rightarrow> u8 \<Rightarrow> int io" where
  "i2c_write buf a = XIicPs_MasterSendPolled a buf"

definition i2c_read :: "nat \<Rightarrow> u8 \<Rightarrow> (int \<times> u8 list) io" where
  "i2c_read len a = XIicPs_MasterRecvPolled a len"

definition i2c_set_port_expander :: "u8 \<Rightarrow> u8 \<Rightarrow> unit io" where
  "i2c_set_port_expander a p = do { XIicPs_MasterSendPolled a [p]; ret () }"

section \<open>Clock chips\<close>

definition lmk61e2_values :: "u32 list" where
  "lmk61e2_values = [
     0x0010, 0x010B, 0x0233, 0x08B0, 0x0901, 0x1000, 0x1180, 0x1502,
     0x1600, 0x170F, 0x1900, 0x1A2E, 0x1B00, 0x1C00, 0x1DA9, 0x1E00,
     0x1F00, 0x20C8, 0x2103, 0x2224, 0x2327, 0x2422, 0x2502, 0x2600,
     0x2707, 0x2F00, 0x3000, 0x3110, 0x3200, 0x3300, 0x3400, 0x3500,
     0x3800, 0x4802]"

definition si571_values :: "(u8 \<times> u8) list" where
  "si571_values = [(137, 0x10), (7, 0xA0), (8, 0xC2), (9, 0xD3), (10, 0x69), (11, 0xB0), (12, 0x13),
     (137, 0x0), (135, 0x40)]"

definition si569_values :: "(u8 \<times> u8) list" where
  "si569_values = [(255, 0x10), (69, 0x00), (17, 0x00), (23, 0x5E), (24, 0x00), (26, 0x66), (27, 0x2F),
     (28, 0x2B), (29, 0x49), (30, 0x48), (31, 0x00), (32, 0x08), (35, 0x86), (7, 0x08), (17, 0x01)]"

text \<open>Reading back registers, for the log only.\<close>

definition read_regs :: "u8 list \<Rightarrow> unit io" where
  "read_regs rs = for_each rs (\<lambda>r. do { i2c_write [r] 0x56; i2c_read 1 0x56; ret () })"

definition read_si569 :: "unit io" where
  "read_si569 = read_regs (map (\<lambda>i. of_nat i + 23) [0..<9])"

definition prog_si569 :: "unit io" where
  "prog_si569 = for_each si569_values (\<lambda>(r, v). do { i2c_write [r, v] 0x56; usleep 50000 })"

definition read_si571 :: "unit io" where
  "read_si571 = read_regs (map (\<lambda>i. of_nat i + 7) [0..<6])"

definition prog_si571 :: "unit io" where
  "prog_si571 = do {
     read_si571;
     for_each si571_values (\<lambda>(r, v). do { i2c_write [r, v] 0x56; ret () });
     read_si571
   }"

definition write_lmk61e2 :: "unit io" where
  "write_lmk61e2 = do {
     i2c_set_port_expander I2C_PORTEXP1_ADDR 0x20;
     for_each lmk61e2_values (\<lambda>regval.
       do { i2c_write [ucast (drop_bit 8 (regval AND 0x00FF00)), ucast (regval AND 0xFF)] 0x5A; ret () })
   }"

section \<open>EEPROM\<close>

definition i2c_get_mac_address :: "u8 list io" where
  "i2c_get_mac_address = do {
     i2c_set_port_expander I2C_PORTEXP0_ADDR 0x40;
     i2c_set_port_expander I2C_PORTEXP1_ADDR 0x0;
     i2c_write [IIC_MAC_REG] IIC_EEPROM_ADDR;
     (status, mac) \<leftarrow> i2c_read 6 IIC_EEPROM_ADDR;
     ret mac
   }"

definition i2c_eeprom_writeBytes :: "u8 \<Rightarrow> u8 list \<Rightarrow> unit io" where
  "i2c_eeprom_writeBytes startAddr bs = do {
     i2c_set_port_expander I2C_PORTEXP0_ADDR 0x40;
     i2c_set_port_expander I2C_PORTEXP1_ADDR 0x0;
     i2c_write (startAddr # bs) IIC_EEPROM_ADDR;
     ret ()
   }"

definition i2c_eeprom_readBytes :: "u8 \<Rightarrow> nat \<Rightarrow> u8 list io" where
  "i2c_eeprom_readBytes startAddr len = do {
     i2c_set_port_expander I2C_PORTEXP0_ADDR 0x40;
     i2c_set_port_expander I2C_PORTEXP1_ADDR 0x0;
     i2c_write [startAddr] IIC_EEPROM_ADDR;
     (status, bs) \<leftarrow> i2c_read len IIC_EEPROM_ADDR;
     ret bs
   }"

definition save_kxky_eeprom :: "u32 \<Rightarrow> u32 \<Rightarrow> unit io" where
  "save_kxky_eeprom kx_nm ky_nm = i2c_eeprom_writeBytes EEPROM_KX_ADDR
     [ucast kx_nm, ucast (drop_bit 8 kx_nm), ucast (drop_bit 16 kx_nm), ucast (drop_bit 24 kx_nm),
      ucast ky_nm, ucast (drop_bit 8 ky_nm), ucast (drop_bit 16 ky_nm), ucast (drop_bit 24 ky_nm)]"

text \<open>The value of four bytes read, least significant first.\<close>

definition rd_le32 :: "u8 list \<Rightarrow> nat \<Rightarrow> u32" where
  "rd_le32 rdBuf i = ucast (rdBuf ! i) OR push_bit 8 (ucast (rdBuf ! (i + 1)))
     OR push_bit 16 (ucast (rdBuf ! (i + 2))) OR push_bit 24 (ucast (rdBuf ! (i + 3)))"

definition set_valid :: "u32 \<Rightarrow> u32 \<Rightarrow> unit io" where
  "set_valid axis v = (if v \<noteq> 0xFFFFFFFF \<and> v \<noteq> 0 then set_kxky axis v else ret ())"

definition ReadEEPROMHardwareSettings :: "unit io" where
  "ReadEEPROMHardwareSettings = do {
     rdBuf \<leftarrow> i2c_eeprom_readBytes EEPROM_KX_ADDR 8;
     set_valid HOR (rd_le32 rdBuf 0);
     set_valid VERT (rd_le32 rdBuf 4)
   }"

definition eeprom_dump :: "u8 list io" where
  "eeprom_dump = i2c_eeprom_readBytes 0 128"

section \<open>Temperatures, SFP modules and the power supplies\<close>

definition read_i2c_temp :: "u8 \<Rightarrow> rat io" where
  "read_i2c_temp a = do {
     (status, buf) \<leftarrow> XIicPs_MasterRecvPolled a 2;
     ret (f32 (f64 (f32 (of_int (uint (buf ! 0) * 256 + uint (buf ! 1))) / 128)))
   }"

text \<open>The five values of a module: temperature, supply, bias current, transmitted and received power;
  all zero when the read fails.\<close>

definition i2c_sfp_get_stats :: "nat \<Rightarrow> rat list io" where
  "i2c_sfp_get_stats sfp_slot = do {
     i2c_set_port_expander I2C_PORTEXP0_ADDR (push_bit sfp_slot 1);
     i2c_set_port_expander I2C_PORTEXP1_ADDR 0;
     i2c_write [96] 0x51;
     (status, rxBuf) \<leftarrow> i2c_read 10 0x51;
     ret (if status \<noteq> XST_SUCCESS then [0, 0, 0, 0, 0]
          else map (\<lambda>(i, scale). f32 (f32 (of_int (uint (rxBuf ! i) * 256 + uint (rxBuf ! (i + 1)))) / scale))
                 [(0, 256), (2, 10000), (4, 2000), (6, 10000), (8, 10000)])
   }"

definition power_f :: "rat \<Rightarrow> int \<Rightarrow> rat" where
  "power_f base e =
     (let (b, n) = (if e < 0 then (1 / base, - e) else (base, e)) in ((\<lambda>r. r * b) ^^ nat n) 1)"

definition L11_to_float :: "int \<Rightarrow> rat" where
  "L11_to_float input_val =
     (let e0 = drop_bit 11 input_val;
          m0 = input_val AND 0x7ff;
          e1 = (if e0 > 0x0F then (e0 OR 0xE0) - 256 else e0);
          m1 = (if m0 > 0x03FF then (m0 OR 0xF800) - 65536 else m0)
      in of_int m1 * power_f 2 e1)"

text \<open>The repeated start option only joins the two transfers.\<close>

definition i2c_ltc2977_stats :: "rat io" where
  "i2c_ltc2977_stats = do {
     i2c_set_port_expander I2C_PORTEXP0_ADDR 0;
     i2c_set_port_expander I2C_PORTEXP1_ADDR 8;
     XIicPs_MasterSendPolled 0x5C [0x8D];
     (status, rxBuf) \<leftarrow> XIicPs_MasterRecvPolled 0x5C 2;
     ret (L11_to_float (uint (rxBuf ! 1) * 256 + uint (rxBuf ! 0)))
   }"

definition i2c_configure_ltc2991 :: "unit io" where
  "i2c_configure_ltc2991 = do {
     i2c_set_port_expander I2C_PORTEXP1_ADDR 4;
     i2c_write [0x06, 0x00, 0x11] 0x48;
     i2c_write [0x06, 0x11, 0x11] 0x49;
     i2c_write [0x06, 0x11, 0x11] 0x4A;
     for_each [0x48, 0x49, 0x4A] (\<lambda>a. do { i2c_write [0x08, 0x10] a; ret () });
     for_each [0x48, 0x49, 0x4A] (\<lambda>a. do { i2c_write [0x01, 0xF0] a; ret () })
   }"

definition ltc2991_value :: "u8 \<Rightarrow> u8 \<Rightarrow> 16 word" where
  "ltc2991_value b0 b1 = signed_drop_bit 1 (push_bit 9 (ucast (b0 AND 0x7F)) OR push_bit 1 (ucast b1))"

definition i2c_ltc2991_voltage :: "u8 \<Rightarrow> u8 \<Rightarrow> 16 word io" where
  "i2c_ltc2991_voltage i2c_addr idx = do {
     i2c_write [0x0A + 2 * idx] i2c_addr;
     (status, rxBuf) \<leftarrow> i2c_read 2 i2c_addr;
     ret (ltc2991_value (rxBuf ! 0) (rxBuf ! 1))
   }"

text \<open>The functions for the single quantities, in their order in the file: the address of the chip and
  the index of its input.\<close>

datatype rail = REG1_TEMP | REG2_TEMP | REG3_TEMP | VCC_VIN | VCC_VIN_CURRENT | MGT_2V5 | MGT_2V5_CURRENT
  | VCC_2V5 | VCC_2V5_CURRENT | MGT_1V2 | MGT_1V2_CURRENT | MGT_0V9 | MGT_0V9_CURRENT | DDR_1V2
  | DDR_1V2_CURRENT | VCC_1V8 | VCC_1V8_CURRENT | VCC_3V3 | VCC_3V3_CURRENT | VCC_0V85 | VCC_0V85_CURRENT

definition ltc2991_rails :: "(rail \<times> u8 \<times> u8) list" where
  "ltc2991_rails = [(REG1_TEMP, 0x48, 0), (REG2_TEMP, 0x48, 1), (REG3_TEMP, 0x48, 2),
     (VCC_VIN, 0x48, 6), (VCC_VIN_CURRENT, 0x48, 7), (MGT_2V5, 0x4A, 0), (MGT_2V5_CURRENT, 0x4A, 1),
     (VCC_2V5, 0x4A, 2), (VCC_2V5_CURRENT, 0x4A, 3), (MGT_1V2, 0x4A, 4), (MGT_1V2_CURRENT, 0x4A, 5),
     (MGT_0V9, 0x4A, 6), (MGT_0V9_CURRENT, 0x4A, 7), (DDR_1V2, 0x49, 0), (DDR_1V2_CURRENT, 0x49, 1),
     (VCC_1V8, 0x49, 2), (VCC_1V8_CURRENT, 0x49, 3), (VCC_3V3, 0x49, 4), (VCC_3V3_CURRENT, 0x49, 5),
     (VCC_0V85, 0x49, 6), (VCC_0V85_CURRENT, 0x49, 6)]"

text \<open>How the 16 bit reading of a quantity is scaled, in \<open>double\<close> arithmetic.\<close>

definition conv_volts_se :: rat where "conv_volts_se = f64 (30518 / 100000000)"
definition conv_volts_diff :: rat where "conv_volts_diff = f64 (19075 / 1000000000)"
definition conv_r_sense :: rat where "conv_r_sense = f64 (1 / 100)"

definition rail_value :: "rail \<Rightarrow> rat \<Rightarrow> rat" where
  "rail_value r v =
    (if r \<in> {REG1_TEMP, REG2_TEMP, REG3_TEMP}
     then f32 (f64 (f64 (f64 (13 / 20) - f64 (conv_volts_se * v)) / f64 (1 / 500)))
     else if r = VCC_VIN then f32 (f64 (f64 (2 * conv_volts_se) * v))
     else if r = VCC_VIN_CURRENT then f32 (f64 (f64 (2 * f64 (conv_volts_diff / conv_r_sense)) * v))
     else if r \<in> {MGT_2V5_CURRENT, VCC_2V5_CURRENT, MGT_1V2_CURRENT, MGT_0V9_CURRENT, DDR_1V2_CURRENT,
         VCC_1V8_CURRENT, VCC_3V3_CURRENT, VCC_0V85_CURRENT}
     then f32 (f64 (f64 (conv_volts_diff / conv_r_sense) * v))
     else f32 (f64 (conv_volts_se * v)))"

definition i2c_ltc2991_rail :: "rail \<Rightarrow> rat io" where
  "i2c_ltc2991_rail r = (case the (map_of ltc2991_rails r) of (chip, idx) \<Rightarrow> do {
     v \<leftarrow> i2c_ltc2991_voltage chip idx;
     ret (rail_value r (of_int (sint v)))
   })"

section \<open>The INA226 monitor\<close>

abbreviation (input) INA226_ADDR :: u8 where "INA226_ADDR \<equiv> 0x40"

definition ina226_write_reg :: "u8 \<Rightarrow> u16 \<Rightarrow> int io" where
  "ina226_write_reg reg v = i2c_write [reg, ucast (drop_bit 8 v), ucast (v AND 0xFF)] INA226_ADDR"

text \<open>The value is \<open>None\<close> when a transfer fails.\<close>

definition ina226_read_reg :: "u8 \<Rightarrow> u16 option io" where
  "ina226_read_reg reg = do {
     status \<leftarrow> i2c_write [reg] INA226_ADDR;
     (if status \<noteq> 0 then ret None
      else do {
        (status, buf) \<leftarrow> i2c_read 2 INA226_ADDR;
        ret (if status \<noteq> 0 then None else Some (push_bit 8 (ucast (buf ! 0)) OR ucast (buf ! 1)))
      })
   }"

definition ina226_init :: "unit io" where
  "ina226_init = do { ina226_write_reg 0x05 0x0800; ret () }"

text \<open>A failed transfer is reported as -1.\<close>

definition ina226_scaled :: "u8 \<Rightarrow> (u16 \<Rightarrow> rat) \<Rightarrow> rat io" where
  "ina226_scaled reg f = do {
     raw \<leftarrow> ina226_read_reg reg;
     ret (case raw of None \<Rightarrow> -1 | Some v \<Rightarrow> f v)
   }"

definition ina226_read_bus_voltage :: "rat io" where
  "ina226_read_bus_voltage = ina226_scaled 0x02 (\<lambda>raw. f32 (f32 (of_int (uint raw)) * f32 (1 / 800)))"

definition ina226_read_current :: "rat io" where
  "ina226_read_current = ina226_scaled 0x04 (\<lambda>raw. f32 (f32 (of_int (sint raw)) * f32 (1 / 8000)))"

definition ina226_read_power :: "rat io" where
  "ina226_read_power = ina226_scaled 0x03 (\<lambda>raw. f32 (f32 (of_int (uint raw)) * f32 (25 * f32 (1 / 8000))))"

lemmas i2c_defs = i2c_write_def i2c_read_def i2c_set_port_expander_def i2c_eeprom_writeBytes_def
  i2c_eeprom_readBytes_def

section \<open>The scale factors in the EEPROM\<close>

lemma rd_le32_join: "rd_le32 bs i = join32 (bs ! i) (bs ! (i + 1)) (bs ! (i + 2)) (bs ! (i + 3))"
  by (simp add: rd_le32_def join32_def)

text \<open>
  The EEPROM as documented: it acknowledges, and a read after its address was sent returns what was
  last written there, as long as the write stayed within one 16 byte page and nothing was written
  since.
\<close>

fun eeprom_write :: "event \<Rightarrow> bool" where
  "eeprom_write (I2cTx a bs st) \<longleftrightarrow> a = IIC_EEPROM_ADDR \<and> 1 < length bs"
| "eeprom_write _ \<longleftrightarrow> False"

definition eeprom_ok :: "hw \<Rightarrow> bool" where
  "eeprom_ok h \<longleftrightarrow> (\<forall>tr bs. hw_i2c_tx h tr IIC_EEPROM_ADDR bs = XST_SUCCESS)
     \<and> (\<forall>tr a bs evs. bs \<noteq> [] \<longrightarrow> unat a mod 16 + length bs \<le> 16 \<longrightarrow> filter eeprom_write evs = [] \<longrightarrow>
          hw_i2c_rx h (tr @ I2cTx IIC_EEPROM_ADDR (a # bs) XST_SUCCESS # evs @ [I2cTx IIC_EEPROM_ADDR [a] XST_SUCCESS])
            IIC_EEPROM_ADDR (length bs) = (XST_SUCCESS, bs))"

lemma eeprom_okD:
  assumes "eeprom_ok h" "bs \<noteq> []" "unat a mod 16 + length bs \<le> 16" "filter eeprom_write evs = []" "n = length bs"
    and "tr' = tr @ I2cTx IIC_EEPROM_ADDR (a # bs) XST_SUCCESS # evs @ [I2cTx IIC_EEPROM_ADDR [a] XST_SUCCESS]"
  shows "hw_i2c_rx h tr' IIC_EEPROM_ADDR n = (XST_SUCCESS, bs)"
  unfolding assms(5,6)
  by (rule assms(1)[unfolded eeprom_ok_def, THEN conjunct2, rule_format, OF assms(2-4)])

text \<open>A device that does so: the last write decides.\<close>

definition ee_hw :: hw where
  "ee_hw = storing_hw\<lparr>hw_i2c_rx := \<lambda>tr a n. (0,
     case filter eeprom_write (rev tr) of I2cTx _ (_ # bs) _ # _ \<Rightarrow> bs | _ \<Rightarrow> replicate n 0xFF)\<rparr>"

lemma ee_hw_ok: "eeprom_ok ee_hw"
proof -
  have "filter eeprom_write (rev evs) = []" if "filter eeprom_write evs = []" for evs
    using that by (simp add: filter_empty_conv)
  then show ?thesis by (auto simp: eeprom_ok_def ee_hw_def storing_hw_def)
qed

lemma run_set_valid:
  "writes (events_of (do { set_valid HOR kx; set_valid VERT ky }) w) =
    (if kx \<noteq> 0xFFFFFFFF \<and> kx \<noteq> 0 then [(PL KX_REG, kx)] else [])
    @ (if ky \<noteq> 0xFFFFFFFF \<and> ky \<noteq> 0 then [(PL KY_REG, ky)] else [])"
  by (simp add: set_valid_def set_kxky_def events_of_def io_simps log_ev_def)

definition ee_read_events :: "u8 \<Rightarrow> event list \<Rightarrow> hw \<Rightarrow> event list" where
  "ee_read_events a tr h =
     (let e0 = I2cTx I2C_PORTEXP0_ADDR [0x40] (hw_i2c_tx h tr I2C_PORTEXP0_ADDR [0x40]);
          e1 = I2cTx I2C_PORTEXP1_ADDR [0x0] (hw_i2c_tx h (tr @ [e0]) I2C_PORTEXP1_ADDR [0x0])
      in [e0, e1, I2cTx IIC_EEPROM_ADDR [a] (hw_i2c_tx h (tr @ [e0, e1]) IIC_EEPROM_ADDR [a])])"

lemma run_readBytes:
  "run_state (i2c_eeprom_readBytes a n) w =
    (let tr = trace w @ ee_read_events a (trace w) (env w);
         (st, bs) = hw_i2c_rx (env w) tr IIC_EEPROM_ADDR n
     in (fit n bs, w\<lparr>trace := tr @ [I2cRx IIC_EEPROM_ADDR (fit n bs) st]\<rparr>))"
  by (simp add: i2c_defs io_simps ee_read_events_def log_ev_def Let_def split: prod.split)

lemma ReadEEPROM_writes:
  "writes (events_of ReadEEPROMHardwareSettings w) =
    (let rdBuf = fst (run_state (i2c_eeprom_readBytes EEPROM_KX_ADDR 8) w); kx = rd_le32 rdBuf 0; ky = rd_le32 rdBuf 4 in
     (if kx \<noteq> 0xFFFFFFFF \<and> kx \<noteq> 0 then [(PL KX_REG, kx)] else [])
    @ (if ky \<noteq> 0xFFFFFFFF \<and> ky \<noteq> 0 then [(PL KY_REG, ky)] else []))"
proof -
  obtain bs v where r: "run_state (i2c_eeprom_readBytes EEPROM_KX_ADDR 8) w = (bs, v)" by fastforce
  obtain es where v: "trace v = trace w @ es" "writes es = []"
    using r by (auto simp: run_readBytes Let_def ee_read_events_def split: prod.splits)
  have "events_of ReadEEPROMHardwareSettings w = es @
      events_of (do { set_valid HOR (rd_le32 bs 0); set_valid VERT (rd_le32 bs 4) }) v"
    using r v(1) by (simp add: ReadEEPROMHardwareSettings_def events_of_def set_valid_def set_kxky_def io_simps log_ev_def)
  then show ?thesis using r v(2) by (simp add: run_set_valid Let_def)
qed

section \<open>The decoded readings\<close>

lemma or_shift:
  fixes x c :: int
  assumes "0 \<le> x" "x < 2 ^ k"
  shows "x OR push_bit k c = x + c * 2 ^ k"
proof -
  have "x = take_bit k x" using assms by (simp add: take_bit_int_eq_self)
  moreover have "take_bit k x AND push_bit k c = 0"
    by (rule bit_eqI) (auto simp: bit_simps)
  ultimately have "x AND push_bit k c = 0" by metis
  then show ?thesis by (simp add: disjunctive_add_eq_or push_bit_eq_mult flip: disjunctive_add_eq_or)
qed

lemma wrap15:
  fixes v :: int
  assumes "0 \<le> v" "v < 32768"
  shows "(2 * v + 32768) mod 65536 - 32768 = (if v < 16384 then 2 * v else 2 * v - 65536)"
proof (cases "v < 16384")
  case True
  with assms show ?thesis by simp
next
  case False
  have "(2 * v + 32768) mod 65536 = ((2 * v - 32768) + 65536) mod 65536"
    by (simp add: algebra_simps)
  also have "\<dots> = (2 * v - 32768) mod 65536" by (rule mod_add_self2)
  also have "\<dots> = 2 * v - 32768" using assms False by (intro mod_pos_pos_trivial) simp_all
  finally show ?thesis using False by simp
qed

lemma ltc2991_signed:
  "sint (ltc2991_value b0 b1) =
     (let v = (uint b0 mod 128) * 256 + uint b1 in if v < 2 ^ 14 then v else v - 2 ^ 15)"
proof -
  let ?X = "push_bit 9 (ucast (b0 AND 0x7F)) OR push_bit 1 (ucast b1) :: 16 word"
  let ?c = "uint b0 mod 128" and ?v = "(uint b0 mod 128) * 256 + uint b1"
  have c: "uint (b0 AND 0x7F) = ?c"
  proof -
    have "b0 AND 0x7F = take_bit 7 b0" by (simp add: take_bit_eq_mask mask_eq_exp_minus_1)
    then show ?thesis by (simp add: take_bit_eq_mod uint_mod)
  qed
  have b1: "0 \<le> uint b1" "uint b1 < 2 ^ 8" using uint_lt2p[of b1] by simp_all
  have fits: "push_bit 9 ?c < 2 ^ 16" "push_bit 1 (uint b1) < 2 ^ 16" "0 \<le> push_bit 9 ?c" "0 \<le> push_bit 1 (uint b1)"
    using b1 pos_mod_bound[of 128 "uint b0"] by (simp_all add: push_bit_eq_mult)
  have "uint ?X = push_bit 9 ?c OR push_bit 1 (uint b1)"
  proof -
    have "take_bit LENGTH(16) (uint b1) = uint b1" "take_bit LENGTH(16) ?c = ?c"
      using b1 pos_mod_bound[of 128 "uint b0"] by (simp_all add: take_bit_int_eq_self)
    moreover have "take_bit LENGTH(16) (push_bit 1 (uint b1)) = push_bit 1 (uint b1)"
      "take_bit LENGTH(16) (push_bit 9 ?c) = push_bit 9 ?c"
      using fits by (simp_all add: take_bit_int_eq_self)
    ultimately show ?thesis
      by (simp only: unsigned_or_eq unsigned_push_bit_eq unsigned_ucast_eq c)
  qed
  also have "\<dots> = push_bit 1 (uint b1 OR push_bit 8 ?c)"
    by (rule bit_eqI) (auto simp: bit_simps)
  also have "\<dots> = 2 * ?v"
    unfolding or_shift[OF b1] by (simp add: push_bit_eq_mult)
  finally have u: "uint ?X = 2 * ?v" .
  have v: "0 \<le> ?v" "?v < 2 ^ 15"
    using b1 pos_mod_bound[of 128 "uint b0"] by simp_all
  have "sint ?X = (2 * ?v + 2 ^ 15) mod 2 ^ 16 - 2 ^ 15"
    unfolding sint_uint u by (simp add: signed_take_bit_eq_take_bit_shift take_bit_eq_mod)
  also have "\<dots> = (if ?v < 2 ^ 14 then 2 * ?v else 2 * ?v - 2 ^ 16)"
    using v wrap15[of ?v] by simp
  finally have "sint ?X = (if ?v < 2 ^ 14 then 2 * ?v else 2 * ?v - 2 ^ 16)" .
  then show ?thesis
    unfolding ltc2991_value_def sint_signed_drop_bit_eq by (simp add: drop_bit_eq_div Let_def)
qed

lemma power_f_powi: "power_f 2 e = 2 powi e"
proof -
  have "((\<lambda>r. r * b) ^^ n) 1 = b ^ n" for b :: rat and n
    by (induction n) simp_all
  then show ?thesis
    by (auto simp: power_f_def power_int_def power_one_over field_simps)
qed

lemma L11_fields:
  assumes "0 \<le> m" "m < 2 ^ 11" "0 \<le> e" "e < 2 ^ 5"
  shows "L11_to_float (e * 2 ^ 11 + m) =
    of_int (if m < 2 ^ 10 then m else m - 2 ^ 11) * 2 powi (if e < 2 ^ 4 then e else e - 2 ^ 5)"
proof -
  have d: "drop_bit 11 (e * 2 ^ 11 + m) = e"
    using assms by (simp add: drop_bit_eq_div)
  have a: "(e * 2 ^ 11 + m) AND 0x7ff = m"
  proof -
    have "(e * 2 ^ 11 + m) AND mask 11 = (e * 2 ^ 11 + m) mod 2 ^ 11" by (simp only: flip: take_bit_eq_mask take_bit_eq_mod)
    then show ?thesis using assms by (simp add: mask_eq_exp_minus_1)
  qed
  have oe: "(e OR 0xE0) - 256 = e - 32"
    using or_shift[of e 5 7] assms by (simp add: push_bit_eq_mult)
  have om: "(m OR 0xF800) - 65536 = m - 2048"
    using or_shift[of m 11 31] assms by (simp add: push_bit_eq_mult)
  show ?thesis
    using assms by (simp add: L11_to_float_def Let_def d[simplified] a[simplified] oe om power_f_powi)
qed

section \<open>Properties\<close>

text \<open>
  The scale factors saved to the EEPROM are the ones programmed at the next
  start, whatever happened on the buses in between short of another EEPROM write; a factor of 0 or
  0xFFFFFFFF, the value of an erased cell, is not programmed.
\<close>

theorem kxky_roundtrip:
  assumes "eeprom_ok (env w)" and w1: "w1 = snd (run_state (save_kxky_eeprom kx ky) w)"
    and w2: "trace w2 = trace w1 @ evs" "env w2 = env w" "filter eeprom_write evs = []"
  shows "writes (events_of ReadEEPROMHardwareSettings w2) =
    (if kx \<noteq> 0xFFFFFFFF \<and> kx \<noteq> 0 then [(PL KX_REG, kx)] else [])
    @ (if ky \<noteq> 0xFFFFFFFF \<and> ky \<noteq> 0 then [(PL KY_REG, ky)] else [])"
proof -
  let ?data = "[ucast kx, ucast (drop_bit 8 kx), ucast (drop_bit 16 kx), ucast (drop_bit 24 kx),
      ucast ky, ucast (drop_bit 8 ky), ucast (drop_bit 16 ky), ucast (drop_bit 24 ky)] :: u8 list"
  have ack: "hw_i2c_tx (env w) tr IIC_EEPROM_ADDR bs = 0" for tr bs
    using assms(1) by (simp add: eeprom_ok_def)
  obtain e0 e1 where t1: "trace w1 = (trace w @ [e0, e1]) @ [I2cTx IIC_EEPROM_ADDR (EEPROM_KX_ADDR # ?data) 0]"
    by (simp add: w1 save_kxky_eeprom_def i2c_defs io_simps log_ev_def ack)
  obtain f0 f1 where rd: "ee_read_events EEPROM_KX_ADDR (trace w2) (env w) = [f0, f1, I2cTx IIC_EEPROM_ADDR [EEPROM_KX_ADDR] 0]"
    and f: "\<not> eeprom_write f0" "\<not> eeprom_write f1"
    by (auto simp: ee_read_events_def Let_def ack)
  have "hw_i2c_rx (env w) (trace w2 @ ee_read_events EEPROM_KX_ADDR (trace w2) (env w)) IIC_EEPROM_ADDR 8 = (0, ?data)"
    by (rule eeprom_okD[OF assms(1), of ?data EEPROM_KX_ADDR "evs @ [f0, f1]" _ _ "trace w @ [e0, e1]"])
      (use f w2(3) in \<open>simp_all add: rd\<close>, simp add: w2(1) t1)
  then have "hw_i2c_rx (env w2) (trace w2 @ ee_read_events EEPROM_KX_ADDR (trace w2) (env w2)) IIC_EEPROM_ADDR 8
      = (0, ?data)"
    by (simp add: w2(2))
  then have "fst (run_state (i2c_eeprom_readBytes EEPROM_KX_ADDR 8) w2) = ?data"
    by (simp add: run_readBytes fit_exact)
  then show ?thesis by (simp add: ReadEEPROM_writes Let_def rd_le32_join)
qed

theorem kxky_roundtrip_witness:
  "writes (events_of ReadEEPROMHardwareSettings (snd (run_state (save_kxky_eeprom 7 0) (start_world ee_hw)))) =
    [(PL KX_REG, 7)]"
  using kxky_roundtrip[of "start_world ee_hw" "snd (run_state (save_kxky_eeprom 7 0) (start_world ee_hw))" 7 0
      "snd (run_state (save_kxky_eeprom 7 0) (start_world ee_hw))" "[]"]
  by (simp add: ee_hw_ok save_kxky_eeprom_def i2c_defs io_simps log_ev_def)

text \<open>
  Whatever the EEPROM and the bus answer at the start, no factor of 0 or
  0xFFFFFFFF is programmed and no other register is written.
\<close>

theorem eeprom_settings_valid:
  "list_all (\<lambda>(p, v). (p = PL KX_REG \<or> p = PL KY_REG) \<and> v \<noteq> 0xFFFFFFFF \<and> v \<noteq> 0)
     (writes (events_of ReadEEPROMHardwareSettings w))"
  by (simp add: ReadEEPROM_writes Let_def)

text \<open>
  The readings are decoded as the chips encode them: the LTC2991's 15 bit
  two's complement value below the status bit, and the LTC2977's linear format, an 11 bit mantissa
  times two to the power of a 5 bit exponent, both in two's complement.
\<close>

theorem readings_decoded:
  "sint (ltc2991_value b0 b1) = (let v = (uint b0 mod 128) * 256 + uint b1 in if v < 2 ^ 14 then v else v - 2 ^ 15)
   \<and> (0 \<le> m \<and> m < 2 ^ 11 \<and> 0 \<le> e \<and> e < 2 ^ 5 \<longrightarrow> L11_to_float (e * 2 ^ 11 + m) =
        of_int (if m < 2 ^ 10 then m else m - 2 ^ 11) * 2 powi (if e < 2 ^ 4 then e else e - 2 ^ 5))"
  using ltc2991_signed L11_fields by blast

theorem readings_decoded_witness:
  "L11_to_float (0x1F * 2 ^ 11 + 0x7FF) = - 1 / 2"
  using readings_decoded[of 0 0 "0x7FF" "0x1F"] by simp

text \<open>
  The twenty monitored quantities are read from different inputs of the chips,
  except that the current of the 0.85 V supply is read from the input of its voltage.
\<close>

theorem rail_inputs_distinct_but_one:
  "distinct (map snd (filter (\<lambda>(r, _). r \<noteq> VCC_0V85_CURRENT) ltc2991_rails))
   \<and> map_of ltc2991_rails VCC_0V85_CURRENT = map_of ltc2991_rails VCC_0V85"
  by (simp add: ltc2991_rails_def)

end
