(* ===== verification/Netconf.thy ===== *)
theory Netconf imports I2c_Devices begin

text \<open>
  A line of \<^verbatim>\<open>NET.CNF\<close> as \<open>sdcard_netconf\<close> of \<^verbatim>\<open>sdcard.c\<close> reads it: cut up in its buffer, its words looked
  at, its address parsed. The specification are the words of the line; \<open>None\<close> is a read or write outside a
  buffer, and \<open>inet_aton\<close> is a parameter.
\<close>

section \<open>A line in its buffer\<close>

text \<open>\<open>isspace\<close> in the C locale: space, tab, newline, vertical tab, form feed, carriage return.\<close>

definition isspace :: "u8 \<Rightarrow> bool" where
  "isspace c \<longleftrightarrow> c = 0x20 \<or> 9 \<le> c \<and> c \<le> 13"

text \<open>Pointers into the buffer are indices; each loop moves one while a condition on its byte holds.\<close>

function skip_while :: "(u8 \<Rightarrow> bool) \<Rightarrow> u8 list \<Rightarrow> nat \<Rightarrow> nat option" where
  "skip_while P buf i = (if length buf \<le> i then None
     else if P (buf ! i) then skip_while P buf (Suc i) else Some i)"
  by pat_completeness auto
termination by (relation "measure (\<lambda>(P, buf, i). length buf - i)") auto

abbreviation word_char :: "u8 \<Rightarrow> bool" where
  "word_char c \<equiv> c \<noteq> 0 \<and> \<not> isspace c"

definition store :: "u8 list \<Rightarrow> nat \<Rightarrow> u8 \<Rightarrow> u8 list option" where
  "store buf i c = (if i < length buf then Some (buf[i := c]) else None)"

definition cstr :: "u8 list \<Rightarrow> nat \<Rightarrow> u8 list" where
  "cstr buf i = takeWhile (\<lambda>c. c \<noteq> 0) (drop i buf)"

text \<open>
  What \<open>sdcard_netconf\<close> makes of a line: nothing of an empty line or a comment, otherwise the index of
  the command, the one of its argument if there is one, and the buffer with both cut off.
\<close>

datatype line = Blank | Command nat "nat option" "u8 list"

definition split_line :: "u8 list \<Rightarrow> line option" where
  "split_line buf =
    (case skip_while isspace buf 0 of None \<Rightarrow> None | Some cmd \<Rightarrow>
     if buf ! cmd = 0 \<or> buf ! cmd = of_char (CHR ''#'') then Some Blank else
     case skip_while word_char buf cmd of None \<Rightarrow> None | Some cmdend \<Rightarrow>
     case skip_while isspace buf cmdend of None \<Rightarrow> None | Some arg \<Rightarrow>
     case store buf cmdend 0 of None \<Rightarrow> None | Some buf1 \<Rightarrow>
     if buf1 ! arg \<noteq> 0 then
       (case skip_while word_char buf1 arg of None \<Rightarrow> None | Some argend \<Rightarrow>
        case store buf1 argend 0 of None \<Rightarrow> None | Some buf2 \<Rightarrow> Some (Command cmd (Some arg) buf2))
     else Some (Command cmd None buf1))"

section \<open>Commands\<close>

record net_config =
  addr :: u32
  mask_ip :: u32
  gw :: u32
  use_static :: bool
  hwaddr :: "u8 list"

definition net_config0 :: net_config where
  "net_config0 = \<lparr>addr = 0, mask_ip = 0, gw = 0, use_static = False, hwaddr = [0, 0, 0, 0, 0, 0]\<rparr>"

text \<open>\<open>inet_aton\<close> leaves its result alone when the text is not an address.\<close>

definition sdcard_parse_inet :: "(u8 list \<Rightarrow> u32 option) \<Rightarrow> u8 list option \<Rightarrow> u32 \<Rightarrow> u32" where
  "sdcard_parse_inet inet_aton arg out =
    (case arg of None \<Rightarrow> out | Some a \<Rightarrow> (case inet_aton a of None \<Rightarrow> out | Some ip \<Rightarrow> ip))"

text \<open>The digit is or-ed into the byte; \<open>None\<close> when it is not one.\<close>

definition parse_hex :: "u8 \<Rightarrow> u8 \<Rightarrow> u8 option" where
  "parse_hex c out =
    (if of_char (CHR ''0'') \<le> c \<and> c \<le> of_char (CHR ''9'') then Some (out OR (c - of_char (CHR ''0'')))
     else if of_char (CHR ''A'') \<le> c \<and> c \<le> of_char (CHR ''F'') then Some (out OR (c - of_char (CHR ''A'') + 10))
     else if of_char (CHR ''a'') \<le> c \<and> c \<le> of_char (CHR ''f'') then Some (out OR (c - of_char (CHR ''a'') + 10))
     else None)"

text \<open>
  The hardware address at index \<open>p\<close>, from its \<open>n\<close>-th byte on with those before it in \<open>acc\<close>: the
  address when all six bytes are read and the text ends there, \<open>[]\<close> when the text is not one.
\<close>

definition char_at :: "u8 list \<Rightarrow> nat \<Rightarrow> u8 option" where
  "char_at buf i = (if i < length buf then Some (buf ! i) else None)"

function parse_hwaddr :: "u8 list \<Rightarrow> nat \<Rightarrow> nat \<Rightarrow> u8 list \<Rightarrow> u8 list option" where
  "parse_hwaddr buf p n acc = (if 6 \<le> n then Some [] else
     case char_at buf (p + n * 3) of None \<Rightarrow> None | Some c0 \<Rightarrow>
     case parse_hex c0 0 of None \<Rightarrow> Some [] | Some hi \<Rightarrow>
     case char_at buf (p + n * 3 + 1) of None \<Rightarrow> None | Some c1 \<Rightarrow>
     case parse_hex c1 (push_bit 4 hi) of None \<Rightarrow> Some [] | Some v \<Rightarrow>
     case char_at buf (p + n * 3 + 2) of None \<Rightarrow> None | Some c2 \<Rightarrow>
     if n < 5 \<and> c2 = of_char (CHR '':'') then parse_hwaddr buf p (Suc n) (acc @ [v])
     else if n = 5 \<and> c2 = 0 then Some (acc @ [v])
     else Some [])"
  by pat_completeness auto
termination by (relation "measure (\<lambda>(buf, p, n, acc). 6 - n)") auto

text \<open>One line. The hardware address is always read from the EEPROM first.\<close>

definition netconf_line :: "(u8 list \<Rightarrow> u32 option) \<Rightarrow> u8 list \<Rightarrow> net_config \<Rightarrow> net_config option io" where
  "netconf_line inet_aton lbuf conf =
    (case split_line lbuf of None \<Rightarrow> ret None | Some Blank \<Rightarrow> ret (Some conf)
     | Some (Command c a buf) \<Rightarrow>
       (let cmd = cstr buf c; arg = map_option (cstr buf) a in
        if cmd = ascii ''dhcp'' then ret (Some (
          if arg = None \<or> arg = Some (ascii ''yes'') then conf\<lparr>use_static := False\<rparr>
          else if arg = Some (ascii ''no'') then conf\<lparr>use_static := True\<rparr>
          else conf))
        else if cmd = ascii ''addr'' then
          ret (Some (conf\<lparr>addr := sdcard_parse_inet inet_aton arg (addr conf), use_static := True\<rparr>))
        else if cmd = ascii ''mask'' then
          ret (Some (conf\<lparr>mask_ip := sdcard_parse_inet inet_aton arg (mask_ip conf)\<rparr>))
        else if cmd = ascii ''gw'' then
          ret (Some (conf\<lparr>gw := sdcard_parse_inet inet_aton arg (gw conf)\<rparr>))
        else if cmd = ascii ''hwaddr'' then do {
          mac \<leftarrow> i2c_get_mac_address;
          case (a, arg) of
            (Some p, Some s) \<Rightarrow>
              if s = ascii ''eeprom'' then do { mac \<leftarrow> i2c_get_mac_address; ret (Some (conf\<lparr>hwaddr := mac\<rparr>)) }
              else ret (case parse_hwaddr buf p 0 [] of None \<Rightarrow> None
                  | Some m \<Rightarrow> Some (conf\<lparr>hwaddr := if m = [] then mac else m\<rparr>))
          | _ \<Rightarrow> do { mac \<leftarrow> i2c_get_mac_address; ret (Some (conf\<lparr>hwaddr := mac\<rparr>)) }
        }
        else ret (Some conf)))"

text \<open>The buffer of a line: the text, its terminating zero, and whatever was there before.\<close>

definition line_buf :: "u8 list \<Rightarrow> u8 list \<Rightarrow> u8 list" where
  "line_buf s old = s @ 0 # drop (Suc (length s)) old"

section \<open>The words of a line\<close>

text \<open>What the line says, without pointers: the first word and the second one.\<close>

definition line_words :: "u8 list \<Rightarrow> (u8 list \<times> u8 list option) option" where
  "line_words s =
    (let s0 = dropWhile isspace s; cmd = takeWhile (\<lambda>c. \<not> isspace c) s0;
         s1 = dropWhile isspace (dropWhile (\<lambda>c. \<not> isspace c) s0)
     in if s0 = [] \<or> hd s0 = of_char (CHR ''#'') then None
        else Some (cmd, if s1 = [] then None else Some (takeWhile (\<lambda>c. \<not> isspace c) s1)))"

lemma skip_run:
  assumes "list_all P ys" "\<not> P c"
  shows "skip_while P (xs @ ys @ c # zs) (length xs) = Some (length xs + length ys)"
  using assms(1)
proof (induction ys arbitrary: xs)
  case Nil
  then show ?case using assms(2) by simp
next
  case (Cons y ys)
  from Cons.IH[of "xs @ [y]"] Cons.prems show ?case by simp
qed

declare skip_while.simps [simp del]

lemma store_at: "store (xs @ c # zs) (length xs) v = Some (xs @ v # zs)"
  by (simp add: store_def)

lemma cstr_at: "0 \<notin> set w \<Longrightarrow> cstr (xs @ w @ 0 # zs) (length xs) = w"
  unfolding cstr_def by (simp, induction w) auto

lemma not_space_0: "\<not> isspace 0" "\<not> isspace (of_char (CHR ''#''))"
  by (simp_all add: isspace_def)

text \<open>A line with a command, taken apart: \<open>l0\<close> and \<open>l1\<close> are space, the words are not.\<close>

lemma split_line_command:
  assumes "list_all isspace l0" "list_all word_char cmd" "cmd \<noteq> []" "hd cmd \<noteq> of_char (CHR ''#'')"
    and l1: "list_all isspace l1"
  shows "split_line (l0 @ cmd @ l1 @ 0 # rest) =
      Some (Command (length l0) None (l0 @ cmd @ (case l1 of [] \<Rightarrow> [] | _ # l \<Rightarrow> 0 # l) @ 0 # rest))"
proof -
  let ?b = "l0 @ cmd @ l1 @ 0 # rest"
  obtain c0 cs where c: "cmd = c0 # cs" using assms(3) by (cases cmd) auto
  have c0: "\<not> isspace c0" "c0 \<noteq> 0" "c0 \<noteq> of_char (CHR ''#'')" using assms(2,4) c by auto
  have 1: "skip_while isspace ?b 0 = Some (length l0)"
    using skip_run[OF assms(1) c0(1), of "[]" "cs @ l1 @ 0 # rest"] c by simp
  have nth: "?b ! length l0 = c0" using c by (simp add: nth_append)
  show ?thesis
  proof (cases l1)
    case Nil
    have 2: "skip_while word_char ?b (length l0) = Some (length l0 + length cmd)"
      using skip_run[OF assms(2), of 0 l0 rest] Nil by simp
    have 3: "skip_while isspace ?b (length l0 + length cmd) = Some (length l0 + length cmd)"
      using skip_run[of isspace "[]" 0 "l0 @ cmd" rest] Nil not_space_0 by simp
    have 4: "store ?b (length l0 + length cmd) 0 = Some ?b"
      using store_at[of "l0 @ cmd" 0 rest 0] Nil by simp
    have 5: "?b ! (length l0 + length cmd) = 0" using Nil by (simp add: nth_append)
    show ?thesis unfolding split_line_def 1 2 3 4 option.case nth 5 using c0 Nil by simp
  next
    case (Cons x l)
    then have x: "isspace x" using l1 by simp
    have 2: "skip_while word_char ?b (length l0) = Some (length l0 + length cmd)"
      using skip_run[OF assms(2), of x l0 "l @ 0 # rest"] x Cons by simp
    have 3: "skip_while isspace ?b (length l0 + length cmd) = Some (length l0 + length cmd + length l1)"
      using skip_run[OF l1 not_space_0(1), of "l0 @ cmd" rest] by simp
    have 4: "store ?b (length l0 + length cmd) 0 = Some (l0 @ cmd @ 0 # l @ 0 # rest)"
      using store_at[of "l0 @ cmd" x "l @ 0 # rest" 0] Cons by simp
    have 5: "(l0 @ cmd @ 0 # l @ 0 # rest) ! (length l0 + length cmd + length l1) = 0"
      using nth_append_length[of "l0 @ cmd @ 0 # l" 0 rest] Cons by (simp add: add.assoc)
    show ?thesis unfolding split_line_def 1 2 3 4 option.case nth 5 using c0 Cons by simp
  qed
qed

lemma split_line_argument:
  assumes "list_all isspace l0" "list_all word_char cmd" "cmd \<noteq> []" "hd cmd \<noteq> of_char (CHR ''#'')"
    and "list_all isspace (x # l)" and arg: "list_all word_char arg" "arg \<noteq> []" "\<not> word_char y"
  shows "split_line (l0 @ cmd @ (x # l) @ arg @ y # rest) =
      Some (Command (length l0) (Some (length l0 + length cmd + Suc (length l))) (l0 @ cmd @ (0 # l) @ arg @ 0 # rest))"
proof -
  let ?b = "l0 @ cmd @ (x # l) @ arg @ y # rest" and ?b1 = "l0 @ cmd @ (0 # l) @ arg @ y # rest"
  obtain c0 cs where c: "cmd = c0 # cs" using assms(3) by (cases cmd) auto
  have c0: "\<not> isspace c0" "c0 \<noteq> 0" "c0 \<noteq> of_char (CHR ''#'')" using assms(2,4) c by auto
  obtain a0 as where a: "arg = a0 # as" using arg(2) by (cases arg) auto
  have a0: "\<not> isspace a0" "a0 \<noteq> 0" using arg(1) a by auto
  have x: "isspace x" using assms(5) by simp
  have 1: "skip_while isspace ?b 0 = Some (length l0)"
    using skip_run[OF assms(1) c0(1), of "[]" "cs @ x # l @ arg @ y # rest"] c by simp
  have nth: "?b ! length l0 = c0" using c by (simp add: nth_append)
  have 2: "skip_while word_char ?b (length l0) = Some (length l0 + length cmd)"
    using skip_run[OF assms(2), of x l0 "l @ arg @ y # rest"] x by simp
  have 3: "skip_while isspace ?b (length l0 + length cmd) = Some (length l0 + length cmd + Suc (length l))"
    using skip_run[OF assms(5) a0(1), of "l0 @ cmd" "as @ y # rest"] a by simp
  have 4: "store ?b (length l0 + length cmd) 0 = Some ?b1"
    using store_at[of "l0 @ cmd" x "l @ arg @ y # rest" 0] by simp
  have 5: "?b1 ! (length l0 + length cmd + Suc (length l)) = a0"
    using nth_append_length[of "l0 @ cmd @ 0 # l" a0 "as @ y # rest"] a by (simp add: add.assoc)
  have 6: "skip_while word_char ?b1 (length l0 + length cmd + Suc (length l)) = Some (length l0 + length cmd + Suc (length l) + length arg)"
    using skip_run[OF arg(1,3), of "l0 @ cmd @ 0 # l" rest] by (simp add: add.assoc)
  have 7: "store ?b1 (length l0 + length cmd + Suc (length l) + length arg) 0 = Some (l0 @ cmd @ (0 # l) @ arg @ 0 # rest)"
    using store_at[of "l0 @ cmd @ (0 # l) @ arg" y rest 0] by (simp add: add.assoc)
  show ?thesis
    unfolding split_line_def 1 2 3 4 option.case nth 5 6 7 using c0 a0 by simp
qed

lemma not_spaces: "c \<in> set (takeWhile (\<lambda>c. \<not> isspace c) s) \<Longrightarrow> \<not> isspace c"
  by (auto dest: set_takeWhileD)

text \<open>Cutting a line up in its buffer never leaves the buffer and finds exactly its words.\<close>

lemma split_line_words:
  assumes s: "0 \<notin> set s"
  shows "case split_line (s @ 0 # rest) of None \<Rightarrow> False | Some Blank \<Rightarrow> line_words s = None
    | Some (Command c a buf) \<Rightarrow> line_words s = Some (cstr buf c, map_option (cstr buf) a)"
proof -
  let ?W = "\<lambda>c. \<not> isspace c"
  define l0 s0 where "l0 = takeWhile isspace s" and "s0 = dropWhile isspace s"
  define cmd r where "cmd = takeWhile ?W s0" and "r = dropWhile ?W s0"
  define l1 s1 where "l1 = takeWhile isspace r" and "s1 = dropWhile isspace r"
  define arg q where "arg = takeWhile ?W s1" and "q = dropWhile ?W s1"
  have dec: "s = l0 @ s0" "s0 = cmd @ r" "r = l1 @ s1" "s1 = arg @ q"
    by (simp_all add: l0_def s0_def cmd_def r_def l1_def s1_def arg_def q_def)
  have sp: "list_all isspace l0" "list_all isspace l1"
    unfolding l0_def l1_def by (auto simp: list_all_iff dest: set_takeWhileD)
  have no0: "0 \<notin> set cmd" "0 \<notin> set arg" "0 \<notin> set s0" "0 \<notin> set s1" using s dec by auto
  have ns: "c \<in> set cmd \<Longrightarrow> \<not> isspace c" "c \<in> set arg \<Longrightarrow> \<not> isspace c" for c
    unfolding cmd_def arg_def by (erule not_spaces)+
  have "word_char c" if "c \<in> set cmd" for c using that no0(1) ns(1)[OF that] by (cases "c = 0") simp_all
  then have wd1: "list_all word_char cmd" by (simp add: list_all_iff)
  have "word_char c" if "c \<in> set arg" for c using that no0(2) ns(2)[OF that] by (cases "c = 0") simp_all
  then have wd2: "list_all word_char arg" by (simp add: list_all_iff)
  note wd = wd1 wd2
  have words: "line_words s = (if s0 = [] \<or> hd s0 = of_char (CHR ''#'') then None
      else Some (cmd, if s1 = [] then None else Some arg))"
    unfolding line_words_def Let_def s0_def cmd_def r_def s1_def arg_def by (rule refl)
  show ?thesis
  proof (cases "s0 = [] \<or> hd s0 = of_char (CHR ''#'')")
    case True
    obtain c z where cz: "s0 @ 0 # rest = c # z" and c: "c = 0 \<or> c = of_char (CHR ''#'')"
      using True by (cases s0) auto
    have nsp: "\<not> isspace c" using c not_space_0 by auto
    have "skip_while isspace (s @ 0 # rest) 0 = Some (length l0)"
      using skip_run[OF sp(1) nsp, of "[]" z] dec(1) cz by simp
    moreover have "(s @ 0 # rest) ! length l0 = c" using dec(1) cz by simp
    ultimately have "split_line (s @ 0 # rest) = Some Blank" using c by (auto simp: split_line_def)
    then show ?thesis using True words by simp
  next
    case False
    then obtain c0 t where s0: "s0 = c0 # t" by (cases s0) auto
    have "\<not> isspace c0" using hd_dropWhile[of isspace s] s0 unfolding s0_def by fastforce
    then have cmd: "cmd \<noteq> []" "hd cmd = hd s0" unfolding cmd_def s0 by simp_all
    have cmd1: "hd cmd \<noteq> of_char (CHR ''#'')" using False cmd by simp
    show ?thesis
    proof (cases "s1 = []")
      case True
      then have b: "s @ 0 # rest = l0 @ cmd @ l1 @ 0 # rest" using dec by simp
      have "cstr (l0 @ cmd @ (case l1 of [] \<Rightarrow> [] | _ # l \<Rightarrow> 0 # l) @ 0 # rest) (length l0) = cmd"
        using cstr_at[OF no0(1), of l0] by (cases l1) auto
      then show ?thesis
        unfolding b split_line_command[OF sp(1) wd(1) cmd(1) cmd1 sp(2)]
        using True False words by simp
    next
      case s1: False
      have "hd s1 \<in> set s1" using s1 by simp
      have ns: "\<not> isspace (hd s1)" using hd_dropWhile[of isspace r] s1 unfolding s1_def by blast
      have arg: "arg \<noteq> []" using ns s1 unfolding arg_def by (cases s1) auto
      have "l1 \<noteq> []"
      proof
        assume "l1 = []"
        then have "r = s1" using dec by simp
        then have "isspace (hd s1)" using hd_dropWhile[of ?W s0] s1 unfolding r_def by auto
        with ns show False by simp
      qed
      then obtain x l where l1: "l1 = x # l" by (cases l1) auto
      obtain y z where yz: "q @ 0 # rest = y # z" and y: "\<not> word_char y"
      proof (cases q)
        case Nil
        then show ?thesis using that[of 0 rest] by simp
      next
        case (Cons y z)
        then have "isspace y" using hd_dropWhile[of ?W s1] unfolding q_def by fastforce
        then show ?thesis using that[of y "z @ 0 # rest"] Cons by simp
      qed
      have b: "s @ 0 # rest = l0 @ cmd @ (x # l) @ arg @ y # z" using dec l1 yz by simp
      have "cstr (l0 @ cmd @ (0 # l) @ arg @ 0 # z) (length l0) = cmd"
        using cstr_at[OF no0(1), of l0] by simp
      moreover have "cstr (l0 @ cmd @ (0 # l) @ arg @ 0 # z) (length l0 + length cmd + Suc (length l)) = arg"
        using cstr_at[OF no0(2), of "l0 @ cmd @ 0 # l"] by (simp add: add.assoc)
      ultimately show ?thesis
        unfolding b split_line_argument[OF sp(1) wd(1) cmd(1) cmd1 sp(2)[unfolded l1] wd(2) arg y]
        using s1 False words by simp
    qed
  qed
qed

section \<open>The hardware address\<close>

declare parse_hwaddr.simps [simp del]

lemma parse_hex_0: "parse_hex 0 out = None"
  by (simp add: parse_hex_def)

text \<open>The parser stays before the end of the text, so it only depends on the text.\<close>

lemma char_at_text:
  assumes "k < length buf" "buf ! k = 0" "p \<le> k" "i \<le> length (cstr buf p)"
  shows "char_at buf (p + i) = char_at (cstr buf p @ [0]) i" "p + length (cstr buf p) \<le> k"
proof -
  have "\<exists>x \<in> set (drop p buf). \<not> x \<noteq> 0"
    using assms(1-3) by (intro bexI[of _ 0]) (auto simp: in_set_conv_nth intro!: exI[of _ "k - p"])
  then have t: "takeWhile (\<lambda>c. c \<noteq> 0) (drop p buf) = cstr buf p" "dropWhile (\<lambda>c. c \<noteq> 0) (drop p buf) \<noteq> []"
    by (auto simp: cstr_def dropWhile_eq_Nil_conv)
  obtain z zs where z: "dropWhile (\<lambda>c. c \<noteq> 0) (drop p buf) = z # zs" using t(2) by (cases "dropWhile (\<lambda>c. c \<noteq> 0) (drop p buf)") auto
  moreover have "z = 0" using hd_dropWhile[of "\<lambda>c. c \<noteq> 0" "drop p buf"] z by force
  ultimately have d: "drop p buf = cstr buf p @ 0 # zs"
    using takeWhile_dropWhile_id[of "\<lambda>c. c \<noteq> 0" "drop p buf"] t(1) by simp
  then have len: "p + Suc (length (cstr buf p)) + length zs = length buf"
    using assms(1,3) by (metis (no_types, opaque_lifting) length_append length_Cons length_drop le_add_diff_inverse
      le_trans less_imp_le_nat add.assoc add_Suc_shift add_Suc)
  show "p + length (cstr buf p) \<le> k"
  proof (rule ccontr)
    assume n: "\<not> p + length (cstr buf p) \<le> k"
    then have "k - p < length (cstr buf p)" using assms(3) by simp
    then have "cstr buf p ! (k - p) = drop p buf ! (k - p)" unfolding d by (simp add: nth_append)
    also have "\<dots> = buf ! k" using assms(1,3) by simp
    finally have "cstr buf p ! (k - p) = buf ! k" .
    moreover have "cstr buf p ! (k - p) \<in> set (cstr buf p)" using \<open>k - p < length (cstr buf p)\<close> by simp
    ultimately show False using assms(2) unfolding cstr_def by (auto dest: set_takeWhileD)
  qed
  have "buf ! (p + i) = drop p buf ! i" using assms(1,3) by simp
  also have "\<dots> = (cstr buf p @ [0]) ! i" using assms(4) unfolding d by (auto simp: nth_append)
  finally show "char_at buf (p + i) = char_at (cstr buf p @ [0]) i"
    using assms(4) len by (simp add: char_at_def)
qed

lemma cstr_nonzero: "i < length (cstr buf p) \<Longrightarrow> cstr buf p ! i \<noteq> 0"
proof -
  assume "i < length (cstr buf p)"
  then have "cstr buf p ! i \<in> set (takeWhile (\<lambda>c. c \<noteq> 0) (drop p buf))"
    unfolding cstr_def by (rule nth_mem)
  then show ?thesis by (blast dest: set_takeWhileD)
qed

lemma char_at_step: "char_at (s @ [0]) i = Some c \<Longrightarrow> c \<noteq> 0 \<Longrightarrow> i < length s"
  by (auto simp: char_at_def nth_append split: if_splits)

lemma char_at_within: "i \<le> length s \<Longrightarrow> \<exists>c. char_at (s @ [0]) i = Some c"
  by (simp add: char_at_def)

lemma parse_hwaddr_text:
  assumes "k < length buf" "buf ! k = 0" "p \<le> k"
  shows "n * 3 \<le> length (cstr buf p) \<Longrightarrow>
    parse_hwaddr buf p n acc = parse_hwaddr (cstr buf p @ [0]) 0 n acc \<and> parse_hwaddr buf p n acc \<noteq> None"
proof (induction "6 - n" arbitrary: n acc)
  case 0
  then show ?case by (simp add: parse_hwaddr.simps)
next
  case (Suc d)
  let ?s = "cstr buf p"
  note at = char_at_text(1)[OF assms]
  obtain c0 where c0: "char_at (?s @ [0]) (n * 3) = Some c0" using char_at_within Suc.prems by blast
  show ?case
  proof (cases "parse_hex c0 0")
    case None
    then show ?thesis using c0 at[OF Suc.prems] by (simp add: parse_hwaddr.simps[of _ _ n])
  next
    case (Some hi)
    then have l1: "n * 3 + 1 \<le> length ?s" using char_at_step[OF c0] parse_hex_0 by force
    obtain c1 where c1: "char_at (?s @ [0]) (n * 3 + 1) = Some c1" using char_at_within l1 by blast
    show ?thesis
    proof (cases "parse_hex c1 (push_bit 4 hi)")
      case None
      then show ?thesis using c0 c1 Some at[OF Suc.prems] at[OF l1]
        by (simp add: parse_hwaddr.simps[of _ _ n])
    next
      case (Some v)
      then have l2: "n * 3 + 2 \<le> length ?s" using char_at_step[OF c1] parse_hex_0 by force
      obtain c2 where c2: "char_at (?s @ [0]) (n * 3 + 2) = Some c2" using char_at_within l2 by blast
      have e: "parse_hwaddr buf p n acc = (if 6 \<le> n then Some [] else if n < 5 \<and> c2 = of_char (CHR '':'') then parse_hwaddr buf p (Suc n) (acc @ [v])
          else if n = 5 \<and> c2 = 0 then Some (acc @ [v]) else Some [])"
        "parse_hwaddr (?s @ [0]) 0 n acc = (if 6 \<le> n then Some [] else if n < 5 \<and> c2 = of_char (CHR '':'') then parse_hwaddr (?s @ [0]) 0 (Suc n) (acc @ [v])
          else if n = 5 \<and> c2 = 0 then Some (acc @ [v]) else Some [])"
        using c0 c1 c2 \<open>parse_hex c0 0 = Some hi\<close> Some at[OF Suc.prems] at[OF l1] at[OF l2]
        by (simp_all add: parse_hwaddr.simps[of _ _ n] add.assoc)
      have "Suc n * 3 \<le> length ?s" if "c2 = of_char (CHR '':'')"
        using char_at_step[OF c2] that by simp
      then have "c2 = of_char (CHR '':'') \<Longrightarrow> parse_hwaddr buf p (Suc n) (acc @ [v]) = parse_hwaddr (?s @ [0]) 0 (Suc n) (acc @ [v])
          \<and> parse_hwaddr buf p (Suc n) (acc @ [v]) \<noteq> None"
        using Suc.hyps(2) by (intro Suc.hyps(1)) simp_all
      note next_byte = this
      show ?thesis
      proof (cases "n < 5 \<and> c2 = of_char (CHR '':'')")
        case True
        then have r: "parse_hwaddr buf p (Suc n) (acc @ [v]) = parse_hwaddr (?s @ [0]) 0 (Suc n) (acc @ [v])"
          "parse_hwaddr (?s @ [0]) 0 (Suc n) (acc @ [v]) \<noteq> None" using next_byte by metis+
        show ?thesis unfolding e r(1) using True Suc.hyps(2) r(2) by (simp del: not_None_eq)
      next
        case False
        then show ?thesis unfolding e by auto
      qed
    qed
  qed
qed

text \<open>
  What an address is, without the parser: six pairs of hexadecimal digits, of either case, separated
  by colons.
\<close>

definition hex_value :: "u8 \<Rightarrow> nat option" where
  "hex_value = map_of (zip (ascii ''0123456789ABCDEFabcdef'') ([0..<16] @ [10..<16]))"

definition hex_pair :: "u8 list \<Rightarrow> nat \<Rightarrow> u8 option" where
  "hex_pair s n = (case (hex_value (s ! (3 * n)), hex_value (s ! (3 * n + 1))) of
     (Some a, Some b) \<Rightarrow> Some (of_nat (16 * a + b)) | _ \<Rightarrow> None)"

definition mac_from :: "nat \<Rightarrow> u8 list \<Rightarrow> u8 list option" where
  "mac_from n s =
    (if length s = 17 \<and> (\<forall>i \<in> set [n..<6]. hex_pair s i \<noteq> None) \<and> (\<forall>i \<in> set [n..<5]. s ! (3 * i + 2) = of_char (CHR '':''))
     then Some (map (\<lambda>i. the (hex_pair s i)) [n..<6]) else None)"

abbreviation mac_text :: "u8 list \<Rightarrow> u8 list option" where
  "mac_text \<equiv> mac_from 0"

abbreviation (input) hex_table :: "(u8 \<times> nat) list" where
  "hex_table \<equiv> zip (ascii ''0123456789ABCDEFabcdef'') ([0..<16] @ [10..<16])"

lemma hex_tables:
  "list_all (\<lambda>(c, d). parse_hex c 0 = Some (of_nat d) \<and> d < 16 \<and> c \<noteq> 0) hex_table"
  "map fst hex_table = map (\<lambda>i. 48 + of_nat i) [0..<10] @ map (\<lambda>i. 65 + of_nat i) [0..<6] @ map (\<lambda>i. 97 + of_nat i) [0..<6]"
  by code_simp+

lemma word_between: "(a :: u8) \<le> c \<Longrightarrow> c \<le> b \<Longrightarrow> \<exists>i \<le> unat b - unat a. c = a + of_nat i"
  by (intro exI[of _ "unat (c - a)"]) (simp add: word_le_nat_alt unat_sub)

lemma hex_char_in_table:
  assumes "parse_hex c 0 \<noteq> None"
  shows "c \<in> set (map fst hex_table)"
proof -
  have "(\<exists>i \<le> 9. c = 48 + of_nat i) \<or> (\<exists>i \<le> 5. c = 65 + of_nat i) \<or> (\<exists>i \<le> 5. c = 97 + of_nat i)"
    using assms word_between[of 48 c 57] word_between[of 65 c 70] word_between[of 97 c 102]
    by (auto simp: parse_hex_def split: if_splits)
  then show ?thesis unfolding hex_tables(2) by (auto simp: le_Suc_eq eval_nat_numeral)
qed

lemma parse_hex_value: "parse_hex c out = map_option (\<lambda>d. out OR of_nat d) (hex_value c)"
proof -
  have "parse_hex c 0 = map_option of_nat (hex_value c)"
  proof (cases "hex_value c")
    case (Some d)
    then have "(c, d) \<in> set hex_table" unfolding hex_value_def by (rule map_of_SomeD)
    with hex_tables(1) Some show ?thesis by (auto simp: list_all_iff)
  next
    case None
    then have "c \<notin> set (map fst hex_table)" unfolding hex_value_def by (simp only: map_of_eq_None_iff set_map not_False_eq_True)
    with hex_char_in_table None show ?thesis by fastforce
  qed
  moreover have "parse_hex c out = map_option (\<lambda>d. out OR d) (parse_hex c 0)"
    by (simp add: parse_hex_def)
  ultimately show ?thesis by (simp add: option.map_comp o_def)
qed

lemma hex_value_range: "hex_value c = Some d \<Longrightarrow> d < 16 \<and> c \<noteq> 0"
  using hex_tables(1) map_of_SomeD[of hex_table c d] unfolding hex_value_def by (auto simp: list_all_iff)

lemma nibbles:
  assumes "a < 16" "b < 16"
  shows "push_bit 4 (of_nat a) OR of_nat b = (of_nat (16 * a + b) :: u8)"
proof -
  have "list_all (\<lambda>a. list_all (\<lambda>b. push_bit 4 (of_nat a) OR of_nat b = (of_nat (16 * a + b) :: u8)) [0..<16]) [0..<16]"
    by code_simp
  then show ?thesis using assms unfolding list_all_iff set_upt by (meson atLeastLessThan_iff le0)
qed

lemma mac_from_step:
  assumes "n < 5"
  shows "mac_from n s = (if s ! (3 * n + 2) = of_char (CHR '':'') then
     (case hex_pair s n of None \<Rightarrow> None | Some v \<Rightarrow> map_option (Cons v) (mac_from (Suc n) s)) else None)"
  using assms by (auto simp: mac_from_def upt_rec[of n] split: option.splits)

lemma mac_from_5: "mac_from 5 s = (if length s = 17 then map_option (\<lambda>v. [v]) (hex_pair s 5) else None)"
  by (auto simp: mac_from_def upt_rec)

lemma mac_from_short: "length s \<noteq> 17 \<Longrightarrow> mac_from n s = None"
  by (simp add: mac_from_def)

lemma parse_hwaddr_step:
  assumes "0 \<notin> set s" "n \<le> 5" "3 * n \<le> length s"
  shows "parse_hwaddr (s @ [0]) 0 n acc =
    (if 3 * n + 2 \<le> length s then
       (case hex_pair s n of None \<Rightarrow> Some []
        | Some v \<Rightarrow> if n < 5 \<and> 3 * n + 2 < length s \<and> s ! (3 * n + 2) = of_char (CHR '':'') then parse_hwaddr (s @ [0]) 0 (Suc n) (acc @ [v])
            else if n = 5 \<and> length s = 3 * n + 2 then Some (acc @ [v]) else Some [])
     else Some [])"
proof -
  have at: "char_at (s @ [0]) i = (if i < length s then Some (s ! i) else if i = length s then Some 0 else None)" for i
    by (simp add: char_at_def nth_append)
  consider "length s = 3 * n" | "length s = 3 * n + 1" | "3 * n + 2 \<le> length s" using assms(3) by linarith
  then show ?thesis
  proof cases
    case 1
    then show ?thesis using assms(2) by (simp add: parse_hwaddr.simps[of _ _ n] at parse_hex_0 mult.commute)
  next
    case 2
    then show ?thesis using assms(2)
      by (simp add: parse_hwaddr.simps[of _ _ n] at parse_hex_0 mult.commute split: option.split)
  next
    case 3
    show ?thesis
    proof (cases "hex_pair s n")
      case None
      then show ?thesis using 3 assms(2) unfolding hex_pair_def
        by (auto simp: parse_hwaddr.simps[of _ _ n] at parse_hex_value mult.commute split: option.splits)
    next
      case (Some v)
      then obtain a b where ab: "hex_value (s ! (3 * n)) = Some a" "hex_value (s ! (3 * n + 1)) = Some b"
        "v = of_nat (16 * a + b)" unfolding hex_pair_def by (auto split: option.splits)
      then have v: "push_bit 4 (of_nat a) OR of_nat b = v" using nibbles hex_value_range by metis
      have nz: "3 * n + 2 < length s \<Longrightarrow> s ! (3 * n + 2) \<noteq> 0" using assms(1) by (metis nth_mem)
      show ?thesis
      proof (cases "3 * n + 2 < length s")
        case True
        then show ?thesis using assms(2) ab(1,2) v nz[OF True] Some
          by (simp add: parse_hwaddr.simps[of _ _ n] at parse_hex_value mult.commute, auto)
      next
        case False
        then show ?thesis using 3 assms(2) ab(1,2) v Some
          by (simp add: parse_hwaddr.simps[of _ _ n] at parse_hex_value mult.commute)
      qed
    qed
  qed
qed

lemma parse_hwaddr_exact_from:
  assumes "0 \<notin> set s"
  shows "n \<le> 5 \<Longrightarrow> 3 * n \<le> length s \<Longrightarrow> parse_hwaddr (s @ [0]) 0 n acc =
    Some (case mac_from n s of None \<Rightarrow> [] | Some m \<Rightarrow> acc @ m)"
proof (induction "5 - n" arbitrary: n acc)
  case 0
  then have n: "n = 5" by simp
  show ?case using 0(3) unfolding n mac_from_5 by (subst parse_hwaddr_step[OF assms]) (auto split: option.split)
next
  case (Suc d)
  then have n: "n < 5" by simp
  have IH: "3 * Suc n \<le> length s \<Longrightarrow> parse_hwaddr (s @ [0]) 0 (Suc n) acc' =
      Some (case mac_from (Suc n) s of None \<Rightarrow> [] | Some m \<Rightarrow> acc' @ m)" for acc'
    using Suc.hyps(2) n by (intro Suc.hyps(1)) simp_all
  show ?case
  proof (cases "3 * n + 2 < length s")
    case True
    then show ?thesis using n Suc.prems IH
      by (subst parse_hwaddr_step[OF assms]) (auto simp: mac_from_step split: option.split)
  next
    case False
    then have "mac_from n s = None" using n by (intro mac_from_short) simp
    then show ?thesis using False n Suc.prems by (subst parse_hwaddr_step[OF assms]) (auto split: option.split)
  qed
qed

lemma parse_hwaddr_zero: "0 \<notin> set s \<Longrightarrow> parse_hwaddr (s @ [0]) 0 0 [] = Some (case mac_text s of None \<Rightarrow> [] | Some m \<Rightarrow> m)"
  using parse_hwaddr_exact_from[of s 0 "[]"] by (simp split: option.split)

text \<open>
  Property C32 (equivalence): in any buffer, what the parser makes of a text is the address the text
  stands for, six pairs of digits separated by colons, or nothing when it is anything else; it reads no
  byte after the end of the text.
\<close>

theorem hwaddr_parser_exact:
  assumes "0 \<notin> set s"
  shows "parse_hwaddr (pre @ s @ 0 # rest) (length pre) 0 [] = Some (case mac_text s of None \<Rightarrow> [] | Some m \<Rightarrow> m)"
proof -
  have "(pre @ s @ 0 # rest) ! (length pre + length s) = 0"
    using nth_append_length[of "pre @ s" 0 rest] by simp
  from parse_hwaddr_text[OF _ this, of "length pre" 0 "[]"] show ?thesis
    using cstr_at[OF assms, of pre rest] parse_hwaddr_zero[OF assms] by simp
qed

theorem hwaddr_parser_exact_witness:
  "parse_hwaddr (ascii ''hw '' @ ascii ''00:1b:2C:3d:4E:5f'' @ [0, 7]) 3 0 [] = Some [0x00, 0x1B, 0x2C, 0x3D, 0x4E, 0x5F]"
proof -
  have t: "0 \<notin> set (ascii ''00:1b:2C:3d:4E:5f'')" "mac_text (ascii ''00:1b:2C:3d:4E:5f'') = Some [0x00, 0x1B, 0x2C, 0x3D, 0x4E, 0x5F]"
    by code_simp+
  show ?thesis using hwaddr_parser_exact[OF t(1), of "ascii ''hw ''" "[7]"] t(2) by (simp add: eval_nat_numeral)
qed

section \<open>What a line says\<close>

text \<open>The effect of a line on the configuration, from its words; \<open>mac\<close> is the address in the EEPROM.\<close>

definition line_effect :: "(u8 list \<Rightarrow> u32 option) \<Rightarrow> u8 list \<Rightarrow> u8 list \<Rightarrow> net_config \<Rightarrow> net_config" where
  "line_effect inet_aton mac s conf =
    (case line_words s of None \<Rightarrow> conf
     | Some (cmd, arg) \<Rightarrow>
       if cmd = ascii ''dhcp'' then
         (if arg = None \<or> arg = Some (ascii ''yes'') then conf\<lparr>use_static := False\<rparr>
          else if arg = Some (ascii ''no'') then conf\<lparr>use_static := True\<rparr> else conf)
       else if cmd = ascii ''addr'' then
         conf\<lparr>addr := sdcard_parse_inet inet_aton arg (addr conf), use_static := True\<rparr>
       else if cmd = ascii ''mask'' then conf\<lparr>mask_ip := sdcard_parse_inet inet_aton arg (mask_ip conf)\<rparr>
       else if cmd = ascii ''gw'' then conf\<lparr>gw := sdcard_parse_inet inet_aton arg (gw conf)\<rparr>
       else if cmd = ascii ''hwaddr'' then
         conf\<lparr>hwaddr := (case arg of None \<Rightarrow> mac | Some a \<Rightarrow> (case mac_text a of None \<Rightarrow> mac | Some m \<Rightarrow> m))\<rparr>
       else conf)"

text \<open>The hardware has an EEPROM that always answers with this address.\<close>

definition mac_eeprom :: "hw \<Rightarrow> u8 list \<Rightarrow> bool" where
  "mac_eeprom h mac \<longleftrightarrow> (\<forall>tr. fit 6 (snd (hw_i2c_rx h tr IIC_EEPROM_ADDR 6)) = mac)"

lemma ends_mac_address: "mac_eeprom h mac \<Longrightarrow> ends h i2c_get_mac_address (\<lambda>m es. m = mac)"
  unfolding i2c_get_mac_address_def i2c_set_port_expander_def i2c_write_def i2c_read_def case_prod_beta
  by (intro ends_intros) (simp add: mac_eeprom_def, metis snd_conv)

lemma skip_while_range: "skip_while P b i = Some j \<Longrightarrow> i \<le> j \<and> j < length b"
proof (induction P b i rule: skip_while.induct)
  case (1 P b i)
  then show ?case by (subst (asm) (2) skip_while.simps) (auto split: if_splits)
qed

lemma split_line_end:
  assumes "split_line b = Some (Command c (Some p) b')"
  shows "\<exists>k < length b'. b' ! k = 0 \<and> p \<le> k"
proof -
  obtain k b1 where k: "skip_while word_char b1 p = Some k" "store b1 k 0 = Some b'"
    using assms unfolding split_line_def by (auto split: option.splits if_splits)
  then show ?thesis using skip_while_range[OF k(1)] by (auto simp: store_def)
qed

lemma cstr_no_zero: "0 \<notin> set (cstr b p)"
  unfolding cstr_def by (auto dest: set_takeWhileD)

lemma netconf_hwaddr:
  assumes "split_line b = Some (Command c (Some p) b')"
  shows "parse_hwaddr b' p 0 [] = Some (case mac_text (cstr b' p) of None \<Rightarrow> [] | Some m \<Rightarrow> m)"
proof -
  obtain k where "k < length b'" "b' ! k = 0" "p \<le> k" using split_line_end[OF assms] by blast
  from parse_hwaddr_text[OF this, of 0 "[]"] show ?thesis using parse_hwaddr_zero[OF cstr_no_zero] by simp
qed

lemma mac_text_Some: "mac_text s = Some m \<Longrightarrow> length m = 6 \<and> length s = 17"
  by (auto simp: mac_from_def split: if_splits)

lemma if_ret: "(if b then ret x else ret y) = ret (if b then x else y)"
  by simp

lemma hwaddr_word:
  "ascii ''hwaddr'' \<noteq> ascii ''dhcp''" "ascii ''hwaddr'' \<noteq> ascii ''addr''"
  "ascii ''hwaddr'' \<noteq> ascii ''mask''" "ascii ''hwaddr'' \<noteq> ascii ''gw''"
  by code_simp+

lemma ends_netconf_line:
  assumes rd: "ends h i2c_get_mac_address (\<lambda>m es. P m)" and "0 \<notin> set s"
  shows "ends h (netconf_line inet_aton (line_buf s lbuf) conf)
    (\<lambda>r es. \<exists>mac. P mac \<and> r = Some (line_effect inet_aton mac s conf))"
proof -
  obtain mac0 where mac0: "P mac0" using ends_start[OF rd] by blast
  note sl = split_line_words[OF assms(2), of "drop (Suc (length s)) lbuf", folded line_buf_def]
  show ?thesis
  proof (cases "split_line (line_buf s lbuf)")
    case None
    then show ?thesis using sl by simp
  next
    case (Some l)
    show ?thesis
    proof (cases l)
      case Blank
      then show ?thesis using sl Some mac0 by (auto simp: netconf_line_def line_effect_def intro!: ends_ret)
    next
      case (Command c a b)
      then have w: "line_words s = Some (cstr b c, map_option (cstr b) a)" using sl Some by simp
      note mac = ends_weaken[OF rd]
      show ?thesis
      proof (cases "cstr b c = ascii ''hwaddr''")
        case False
        then show ?thesis
          unfolding netconf_line_def Some Command line_effect_def w option.case line.case Let_def prod.case
          by (simp only: if_False if_ret) (rule ends_ret, use mac0 in auto)
      next
        case True
        note hw = netconf_line_def Some Command line_effect_def w option.case line.case Let_def prod.case True
          if_not_P[OF hwaddr_word(1)] if_not_P[OF hwaddr_word(2)] if_not_P[OF hwaddr_word(3)]
          if_not_P[OF hwaddr_word(4)] if_P[OF refl]
        show ?thesis
        proof (cases a)
          case None
          show ?thesis unfolding hw None option.map option.case prod.case
            by (intro ends_bind mac, intro ends_bind mac ends_ret) auto
        next
          case (Some p)
          have m: "parse_hwaddr b p 0 [] = Some (case mac_text (cstr b p) of None \<Rightarrow> [] | Some m \<Rightarrow> m)"
            using netconf_hwaddr \<open>split_line (line_buf s lbuf) = Some l\<close> Command Some by simp
          have e: "mac_text (ascii ''eeprom'') = None" by (intro mac_from_short) simp
          show ?thesis
          proof (cases "cstr b p = ascii ''eeprom''")
            case True
            show ?thesis unfolding hw Some option.map option.case prod.case if_P[OF True] unfolding True e option.case
              by (intro ends_bind mac, intro ends_bind mac ends_ret) auto
          next
            case False
            show ?thesis unfolding hw Some option.map option.case prod.case if_not_P[OF False] m
              by (intro ends_bind mac ends_ret, rule exI, rule conjI, assumption) (auto dest: mac_text_Some split: option.split)
          qed
        qed
      qed
    qed
  qed
qed

section \<open>Writing an address\<close>

definition hex_digit :: "nat \<Rightarrow> u8" where
  "hex_digit d = ascii ''0123456789ABCDEF'' ! d"

fun fmt_mac :: "u8 list \<Rightarrow> u8 list" where
  "fmt_mac [] = []"
| "fmt_mac [v] = [hex_digit (unat v div 16), hex_digit (unat v mod 16)]"
| "fmt_mac (v # vs) = hex_digit (unat v div 16) # hex_digit (unat v mod 16) # of_char (CHR '':'') # fmt_mac vs"

lemma hex_digits: "list_all (\<lambda>d. hex_value (hex_digit d) = Some d \<and> word_char (hex_digit d)) [0..<16]"
  by code_simp

lemma hex_digit_value: "d < 16 \<Longrightarrow> hex_value (hex_digit d) = Some d"
  and hex_digit_word: "d < 16 \<Longrightarrow> word_char (hex_digit d)"
  using hex_digits by (simp_all add: list_all_iff)

lemma unat_u8: "unat (v :: u8) div 16 < 16" "of_nat (16 * (unat v div 16) + unat v mod 16) = v"
proof -
  have "unat v < 2 ^ LENGTH(8)" by (rule unsigned_less)
  then show "unat v div 16 < 16" by simp
qed simp

lemma mac_text_fmt: "mac_text (fmt_mac [a, b, c, d, e, f]) = Some [a, b, c, d, e, f]"
  by (simp add: mac_from_def hex_pair_def hex_digit_value unat_u8 upt_rec[of _ 6] upt_rec[of _ 5])

lemma spaces_around:
  assumes "list_all word_char cmd" "cmd \<noteq> []" "hd cmd \<noteq> of_char (CHR ''#'')" "list_all word_char arg" "arg \<noteq> []"
  shows "line_words (cmd @ [0x20] @ arg @ [10]) = Some (cmd, Some arg)"
proof -
  have c: "\<forall>c \<in> set cmd. \<not> isspace c" and a: "\<forall>c \<in> set arg. \<not> isspace c"
    using assms(1,4) by (simp_all add: list_all_iff)
  have s: "isspace 0x20" "isspace 10" by (simp_all add: isspace_def)
  have d1: "dropWhile isspace (cmd @ xs) = cmd @ xs" for xs using c assms(2) by (cases cmd) auto
  have d2: "dropWhile isspace (arg @ xs) = arg @ xs" for xs using a assms(5) by (cases arg) auto
  show ?thesis
    using c a s assms(2,3,5) d1 d2
    by (simp add: line_words_def Let_def dropWhile_append2 takeWhile_append2)
qed

text \<open>
  Property C33 (roundtrip): an address written in the usual form after the word hwaddr is the one the
  configuration then has, whatever the EEPROM says.
\<close>

theorem hwaddr_roundtrip:
  "fst (run_state (netconf_line inet_aton (line_buf (ascii ''hwaddr'' @ [0x20] @ fmt_mac [a, b, c, d, e, f] @ [10]) lbuf) conf) w)
    = Some (conf\<lparr>hwaddr := [a, b, c, d, e, f]\<rparr>)"
proof -
  let ?m = "fmt_mac [a, b, c, d, e, f]"
  have wc: "list_all word_char ?m" using hex_digit_word unat_u8(1) by (simp add: isspace_def)
  then have words: "line_words (ascii ''hwaddr'' @ [0x20] @ ?m @ [10]) = Some (ascii ''hwaddr'', Some ?m)"
    by (intro spaces_around) (simp_all add: isspace_def ascii_def)
  have eff: "line_effect inet_aton mac (ascii ''hwaddr'' @ [0x20] @ ?m @ [10]) conf = conf\<lparr>hwaddr := [a, b, c, d, e, f]\<rparr>" for mac
    unfolding line_effect_def words using hwaddr_word by (simp add: mac_text_fmt del: fmt_mac.simps)
  have no0: "0 \<notin> set (ascii ''hwaddr'' @ [0x20] @ ?m @ [10])"
    using wc by (auto simp: list_all_iff ascii_def simp del: fmt_mac.simps)
  have rd: "ends (env w) i2c_get_mac_address (\<lambda>m es. True)"
    unfolding i2c_get_mac_address_def i2c_set_port_expander_def i2c_write_def i2c_read_def case_prod_beta
    by (intro ends_intros) simp
  obtain mac where "fst (run_state (netconf_line inet_aton (line_buf (ascii ''hwaddr'' @ [0x20] @ ?m @ [10]) lbuf) conf) w)
      = Some (line_effect inet_aton mac (ascii ''hwaddr'' @ [0x20] @ ?m @ [10]) conf)"
    using ends_events[OF ends_netconf_line[OF rd no0]] by blast
  then show ?thesis by (simp only: eff)
qed

end
