(* ===== verification/Sdcard.thy ===== *)
theory Sdcard imports Tftp_Handler Netconf begin

text \<open>
  The configuration from the SD card, \<^verbatim>\<open>sdcard.c\<close>: the lines of \<^verbatim>\<open>NET.CNF\<close>, and the exchange of the
  EEPROM's content with two files. FatFs is a parameter.
\<close>

section \<open>The card\<close>

text \<open>The functions of FatFs used here and not by the TFTP server. \<open>f_gets\<close> reads a line into a
  buffer of the size given; \<open>f_open\<close> with all flags set is \<open>f_open_rw\<close>.\<close>

record 'd sd_fatfs = "'d fatfs" +
  f_gets :: "nat \<Rightarrow> 'd \<Rightarrow> u8 list option \<times> 'd"
  f_open_rw :: "u8 list \<Rightarrow> 'd \<Rightarrow> nat \<times> 'd"
  f_lseek :: "nat \<Rightarrow> 'd \<Rightarrow> nat \<times> 'd"
  f_truncate :: "'d \<Rightarrow> nat \<times> 'd"
  f_sync :: "'d \<Rightarrow> nat \<times> 'd"
  f_unlink :: "u8 list \<Rightarrow> 'd \<Rightarrow> nat \<times> 'd"
  f_mount :: "u8 list \<Rightarrow> 'd \<Rightarrow> nat \<times> 'd"
  f_chdir :: "u8 list \<Rightarrow> 'd \<Rightarrow> nat \<times> 'd"
  f_unmount :: "u8 list \<Rightarrow> 'd \<Rightarrow> nat \<times> 'd"

text \<open>The lines of the file, at most \<open>fuel\<close> of them; \<open>lbuf\<close> is the 64 byte buffer.\<close>

fun sdcard_netconf :: "nat \<Rightarrow> 'd sd_fatfs \<Rightarrow> (u8 list \<Rightarrow> u32 option) \<Rightarrow> u8 list \<Rightarrow> net_config \<Rightarrow> 'd \<Rightarrow> (net_config \<times> 'd) option io" where
  "sdcard_netconf 0 F inet_aton lbuf conf d = ret None"
| "sdcard_netconf (Suc fuel) F inet_aton lbuf conf d =
    (case f_gets F 64 d of
       (None, d') \<Rightarrow> ret (Some (conf, d'))
     | (Some s, d') \<Rightarrow> do {
         r \<leftarrow> netconf_line inet_aton (line_buf s lbuf) conf;
         case r of None \<Rightarrow> ret None
         | Some conf' \<Rightarrow> sdcard_netconf fuel F inet_aton (line_buf s lbuf) conf' d'
       })"

abbreviation (input) EE_SIZE :: nat where "EE_SIZE \<equiv> 256"

text \<open>
  \<open>sdcard_sync_eeprom\<close>. The read of the EEPROM is commented out, so what is compared and written is
  \<open>ee\<close>, the content of a block just allocated; \<open>file\<close> is another. Reports go to the console.
\<close>

datatype sync_report = Read_Error | Up_To_Date | Bad_Size | Wrote_EEPROM | File_Updated | File_Error

definition write_back :: "'d sd_fatfs \<Rightarrow> u8 list \<Rightarrow> 'd \<Rightarrow> bool \<times> 'd" where
  "write_back F ee d =
    (case f_lseek F 0 d of (r1, d1) \<Rightarrow> if r1 \<noteq> FR_OK then (False, d1) else
     case f_truncate F d1 of (r2, d2) \<Rightarrow> if r2 \<noteq> FR_OK then (False, d2) else
     case f_write F ee d2 of (r3, w, d3) \<Rightarrow> if r3 \<noteq> FR_OK then (False, d3) else
     if w \<noteq> EE_SIZE then (False, d3) else
     case f_sync F d3 of (r4, d4) \<Rightarrow> (r4 = FR_OK, d4))"

definition sdcard_sync_eeprom :: "'d sd_fatfs \<Rightarrow> u8 list \<Rightarrow> bool \<Rightarrow> 'd \<Rightarrow> sync_report \<times> 'd" where
  "sdcard_sync_eeprom F ee eewrite d =
    (case f_read F EE_SIZE d of (r, file, d1) \<Rightarrow>
     if r \<noteq> FR_OK then (Read_Error, d1)
     else if length file = EE_SIZE \<and> list_all (\<lambda>i. ee ! i = file ! i) [0..<EE_SIZE] then (Up_To_Date, d1)
     else if eewrite then (if length file \<noteq> EE_SIZE then Bad_Size else Wrote_EEPROM, d1)
     else case write_back F ee d1 of (ok, d2) \<Rightarrow> (if ok then File_Updated else File_Error, d2))"

text \<open>\<open>ee1\<close> and \<open>ee2\<close> are the blocks the two calls allocate.\<close>

definition process_eeprom :: "'d sd_fatfs \<Rightarrow> u8 list \<Rightarrow> u8 list \<Rightarrow> 'd \<Rightarrow> 'd" where
  "process_eeprom F ee1 ee2 d =
    (let d1 = (case f_open F (ascii ''EEPROM.NEW'') [FA_OPEN_EXISTING, FA_READ] d of
           (r, d') \<Rightarrow> if r \<noteq> FR_OK then d'
             else snd (f_unlink F (ascii ''EEPROM.NEW'') (snd (f_close F (snd (sdcard_sync_eeprom F ee1 True d'))))))
     in case f_open_rw F (ascii ''EEPROM.DAT'') d1 of
          (r, d2) \<Rightarrow> if r \<noteq> FR_OK then d2
            else snd (f_close F (snd (sdcard_sync_eeprom F ee2 False d2))))"

definition sdcard_process :: "nat \<Rightarrow> 'd sd_fatfs \<Rightarrow> (u8 list \<Rightarrow> u32 option) \<Rightarrow> u8 list \<Rightarrow> u8 list \<Rightarrow> u8 list
    \<Rightarrow> net_config \<Rightarrow> 'd \<Rightarrow> (net_config \<times> 'd) option io" where
  "sdcard_process fuel F inet_aton lbuf ee1 ee2 conf d =
    (case f_open F (ascii ''NET.CNF'') [FA_OPEN_EXISTING, FA_READ] d of
       (r, d1) \<Rightarrow> if r \<noteq> FR_OK then ret (Some (conf, process_eeprom F ee1 ee2 d1))
         else do {
           x \<leftarrow> sdcard_netconf fuel F inet_aton lbuf conf d1;
           ret (map_option (\<lambda>(conf', d2). (conf', process_eeprom F ee1 ee2 (snd (f_close F d2)))) x)
         })"

text \<open>A partition: the result says whether it could be used.\<close>

definition sdcard_trypart :: "nat \<Rightarrow> 'd sd_fatfs \<Rightarrow> (u8 list \<Rightarrow> u32 option) \<Rightarrow> u8 list \<Rightarrow> u8 list \<Rightarrow> u8 list
    \<Rightarrow> u8 list \<Rightarrow> net_config \<Rightarrow> 'd \<Rightarrow> (bool \<times> net_config \<times> 'd) option io" where
  "sdcard_trypart fuel F inet_aton lbuf ee1 ee2 vol conf d =
    (case f_mount F vol d of
       (r, d1) \<Rightarrow> if r \<noteq> FR_OK then ret (Some (False, conf, d1))
         else case f_chdir F vol d1 of
           (r, d2) \<Rightarrow> if r \<noteq> FR_OK then ret (Some (False, conf, snd (f_unmount F vol d2)))
             else do {
               x \<leftarrow> sdcard_process fuel F inet_aton lbuf ee1 ee2 conf d2;
               ret (map_option (Pair True) x)
             })"

definition sdcard_handle :: "nat \<Rightarrow> 'd sd_fatfs \<Rightarrow> (u8 list \<Rightarrow> u32 option) \<Rightarrow> u8 list \<Rightarrow> u8 list \<Rightarrow> u8 list
    \<Rightarrow> net_config \<Rightarrow> 'd \<Rightarrow> (net_config \<times> 'd) option io" where
  "sdcard_handle fuel F inet_aton lbuf ee1 ee2 conf d = do {
     x \<leftarrow> sdcard_trypart fuel F inet_aton lbuf ee1 ee2 (ascii ''0:/'') conf d;
     case x of None \<Rightarrow> ret None
     | Some (used, conf', d') \<Rightarrow>
         if used then ret (Some (conf', d'))
         else do {
           y \<leftarrow> sdcard_trypart fuel F inet_aton lbuf ee1 ee2 (ascii ''1:/'') conf' d';
           ret (map_option snd y)
         }
   }"

text \<open>The lines \<open>f_gets\<close> delivers, up to the end of the file.\<close>

fun gives_lines :: "'d sd_fatfs \<Rightarrow> 'd \<Rightarrow> u8 list list \<Rightarrow> 'd \<Rightarrow> bool" where
  "gives_lines F d [] e \<longleftrightarrow> f_gets F 64 d = (None, e)"
| "gives_lines F d (s # ss) e \<longleftrightarrow> (\<exists>d'. f_gets F 64 d = (Some s, d') \<and> gives_lines F d' ss e)"

lemma ends_netconf:
  assumes "mac_eeprom h mac"
  shows "gives_lines F d ls e \<Longrightarrow> \<forall>s \<in> set ls. 0 \<notin> set s \<Longrightarrow> length ls < fuel \<Longrightarrow>
    ends h (sdcard_netconf fuel F inet_aton lbuf conf d)
      (\<lambda>r es. r = Some (foldl (\<lambda>c s. line_effect inet_aton mac s c) conf ls, e))"
proof (induction ls arbitrary: fuel lbuf conf d)
  case Nil
  then show ?case by (cases fuel) (auto intro: ends_ret)
next
  case (Cons s ls)
  then obtain k where k: "fuel = Suc k" by (cases fuel) auto
  obtain d' where d': "f_gets F 64 d = (Some s, d')" "gives_lines F d' ls e" using Cons.prems by auto
  have "ends h (netconf_line inet_aton (line_buf s lbuf) conf) (\<lambda>r es. r = Some (line_effect inet_aton mac s conf))"
    using Cons.prems(2) by (intro ends_weaken[OF ends_netconf_line[OF ends_mac_address[OF assms]]]) auto
  then show ?case unfolding k sdcard_netconf.simps d'(1) prod.case option.case
    by (intro ends_bind, elim ends_weaken) (use Cons.IH[OF d'(2)] Cons.prems k in auto)
qed

text \<open>
  Property C31 (refinement): reading NET.CNF comes to an end after its last line, and what it leaves in
  the configuration is the effect of the lines' words, one line after the other; cutting the words out
  of the buffer never leaves it.
\<close>

theorem netconf_applied:
  assumes "mac_eeprom (env w) mac" "gives_lines F d ls e" "\<forall>s \<in> set ls. 0 \<notin> set s" "length ls < fuel"
  shows "fst (run_state (sdcard_netconf fuel F inet_aton lbuf conf d) w)
    = Some (foldl (\<lambda>c s. line_effect inet_aton mac s c) conf ls, e)"
  by (rule ends_events[OF ends_netconf[OF assms]])

section \<open>The EEPROM files\<close>

text \<open>
  The rest of FatFs as documented, on a card that works: opening with all flags makes the file if there
  is none; positions, truncation at the position, removal.
\<close>

definition sd_ok :: "'d sd_fatfs \<Rightarrow> ('d \<Rightarrow> u8 list \<rightharpoonup> u8 list) \<Rightarrow> ('d \<Rightarrow> (u8 list \<times> nat) option) \<Rightarrow> bool" where
  "sd_ok F vol cur \<longleftrightarrow> fatfs_ok (fatfs.truncate F) vol cur
   \<and> (\<forall>d p. \<exists>d'. f_open_rw F p d = (FR_OK, d') \<and> cur d' = Some (p, 0)
        \<and> vol d' = (vol d)(p \<mapsto> (case vol d p of None \<Rightarrow> [] | Some c \<Rightarrow> c)))
   \<and> (\<forall>d p n c k. cur d = Some (p, n) \<longrightarrow> vol d p = Some c \<longrightarrow> k \<le> length c \<longrightarrow>
        (\<exists>d'. f_lseek F k d = (FR_OK, d') \<and> cur d' = Some (p, k) \<and> vol d' = vol d))
   \<and> (\<forall>d p n c. cur d = Some (p, n) \<longrightarrow> vol d p = Some c \<longrightarrow>
        (\<exists>d'. f_truncate F d = (FR_OK, d') \<and> cur d' = Some (p, n) \<and> vol d' = (vol d)(p \<mapsto> take n c)))
   \<and> (\<forall>d. \<exists>d'. f_sync F d = (FR_OK, d') \<and> cur d' = cur d \<and> vol d' = vol d)
   \<and> (\<forall>d p. cur d = None \<longrightarrow> vol (snd (f_unlink F p d)) = (vol d)(p := None))
   \<and> (\<forall>d. cur (snd (f_close F d)) = None)"

lemma sd_okD:
  assumes "sd_ok F vol cur"
  shows "fatfs_ok (fatfs.truncate F) vol cur"
    and "\<exists>d'. f_open_rw F p d = (FR_OK, d') \<and> cur d' = Some (p, 0)
        \<and> vol d' = (vol d)(p \<mapsto> (case vol d p of None \<Rightarrow> [] | Some c \<Rightarrow> c))"
    and "cur d = Some (p, n) \<Longrightarrow> vol d p = Some c \<Longrightarrow> k \<le> length c \<Longrightarrow>
        \<exists>d'. f_lseek F k d = (FR_OK, d') \<and> cur d' = Some (p, k) \<and> vol d' = vol d"
    and "cur d = Some (p, n) \<Longrightarrow> vol d p = Some c \<Longrightarrow>
        \<exists>d'. f_truncate F d = (FR_OK, d') \<and> cur d' = Some (p, n) \<and> vol d' = (vol d)(p \<mapsto> take n c)"
    and "\<exists>d'. f_sync F d = (FR_OK, d') \<and> cur d' = cur d \<and> vol d' = vol d"
    and "cur d = None \<Longrightarrow> vol (snd (f_unlink F p d)) = (vol d)(p := None)"
    and "cur (snd (f_close F d)) = None"
  using assms unfolding sd_ok_def by blast+

lemma truncate_fields:
  "f_open (fatfs.truncate F) = f_open F" "f_close (fatfs.truncate F) = f_close F"
  "f_read (fatfs.truncate F) = f_read F" "f_write (fatfs.truncate F) = f_write F"
  by (simp_all add: fatfs.truncate_def)

lemma sd_file_ops:
  assumes "sd_ok F vol cur"
  shows "vol d p = Some c \<Longrightarrow>
        \<exists>d'. f_open F p [FA_OPEN_EXISTING, FA_READ] d = (FR_OK, d') \<and> cur d' = Some (p, 0) \<and> vol d' = vol d"
    and "cur d = Some (p, n) \<Longrightarrow> vol d p = Some c \<Longrightarrow>
        \<exists>d'. f_read F k d = (FR_OK, take k (drop n c), d') \<and> vol d' = vol d \<and> cur d' = Some (p, n + length (take k (drop n c)))"
    and "cur d = Some (p, n) \<Longrightarrow> vol d p = Some c \<Longrightarrow>
        \<exists>d'. f_write F bs d = (FR_OK, length bs, d') \<and> cur d' = Some (p, n + length bs)
          \<and> vol d' = (vol d)(p \<mapsto> overwrite c n bs)"
    and "vol (snd (f_close F d)) = vol d"
  using sd_okD(1)[OF assms] unfolding fatfs_ok_def truncate_fields by blast+

lemma write_back_replaces:
  assumes "sd_ok F vol cur" "cur d = Some (p, n)" "vol d p = Some c" "length ee = EE_SIZE"
  shows "\<exists>d'. write_back F ee d = (True, d') \<and> vol d' = (vol d)(p \<mapsto> ee)"
proof -
  note ok = sd_okD[OF assms(1)]
  obtain d1 where 1: "f_lseek F 0 d = (FR_OK, d1)" "cur d1 = Some (p, 0)" "vol d1 = vol d"
    using ok(3)[OF assms(2,3), of 0] by auto
  obtain d2 where 2: "f_truncate F d1 = (FR_OK, d2)" "cur d2 = Some (p, 0)" "vol d2 = (vol d)(p \<mapsto> [])"
    using ok(4)[OF 1(2), of c] 1(3) assms(3) by auto
  obtain d3 where 3: "f_write F ee d2 = (FR_OK, length ee, d3)" "cur d3 = Some (p, length ee)" "vol d3 = (vol d)(p \<mapsto> ee)"
    using sd_file_ops(3)[OF assms(1) 2(2), of "[]" ee] 2(3) by (auto simp: overwrite_def)
  obtain d4 where 4: "f_sync F d3 = (FR_OK, d4)" "vol d4 = vol d3" using ok(5) by blast
  show ?thesis using assms(4) by (simp add: write_back_def 1 2 3 4)
qed

lemma sync_to_file:
  assumes "sd_ok F vol cur" "cur d = Some (p, 0)" "vol d p = Some c" "length ee = EE_SIZE"
  shows "\<exists>c'. vol (snd (sdcard_sync_eeprom F ee False d)) = (vol d)(p \<mapsto> c') \<and> take EE_SIZE c' = ee"
proof -
  obtain d1 where 1: "f_read F EE_SIZE d = (FR_OK, take EE_SIZE c, d1)" "vol d1 = vol d"
      "cur d1 = Some (p, length (take EE_SIZE c))"
    using sd_file_ops(2)[OF assms(1-3), of EE_SIZE] by auto
  show ?thesis
  proof (cases "length (take EE_SIZE c) = EE_SIZE \<and> list_all (\<lambda>i. ee ! i = take EE_SIZE c ! i) [0..<EE_SIZE]")
    case True
    then have "take EE_SIZE c = ee" using assms(4) by (intro nth_equalityI) (auto simp: list_all_iff)
    moreover have "snd (sdcard_sync_eeprom F ee False d) = d1"
      using True unfolding sdcard_sync_eeprom_def 1 prod.case by simp
    ultimately show ?thesis using 1(2) assms(3) by (intro exI[of _ c]) (simp add: fun_upd_idem)
  next
    case False
    obtain d2 where 2: "write_back F ee d1 = (True, d2)" "vol d2 = (vol d1)(p \<mapsto> ee)"
      using write_back_replaces[OF assms(1) 1(3), of c ee] 1(2) assms(3,4) by auto
    have "snd (sdcard_sync_eeprom F ee False d) = d2"
      unfolding sdcard_sync_eeprom_def 1 prod.case if_not_P[OF False] 2 by simp
    then show ?thesis using 1(2) 2(2) assms(4) by (intro exI[of _ ee]) simp
  qed
qed

lemma sync_from_file:
  assumes "sd_ok F vol cur" "cur d = Some (p, 0)" "vol d p = Some c"
  shows "vol (snd (sdcard_sync_eeprom F ee True d)) = vol d"
proof -
  obtain d1 where 1: "f_read F EE_SIZE d = (FR_OK, take EE_SIZE c, d1)" "vol d1 = vol d"
    using sd_file_ops(2)[OF assms(1-3), of EE_SIZE] by auto
  then show ?thesis by (simp add: sdcard_sync_eeprom_def)
qed

text \<open>
  Property C34 (error): an update of the EEPROM left on the card is deleted without having been used:
  afterwards EEPROM.NEW is gone, and EEPROM.DAT, which should hold what the EEPROM holds, starts with
  the content of a block fresh from malloc.
\<close>

theorem eeprom_update_lost:
  assumes ok: "sd_ok F vol cur" and new: "vol d (ascii ''EEPROM.NEW'') = Some c" and "length ee2 = EE_SIZE"
  shows "\<exists>c'. vol (process_eeprom F ee1 ee2 d) = (vol d)(ascii ''EEPROM.NEW'' := None, ascii ''EEPROM.DAT'' \<mapsto> c')
    \<and> take EE_SIZE c' = ee2"
proof -
  let ?new = "ascii ''EEPROM.NEW''" and ?dat = "ascii ''EEPROM.DAT''"
  obtain d1 where 1: "f_open F ?new [FA_OPEN_EXISTING, FA_READ] d = (FR_OK, d1)" "cur d1 = Some (?new, 0)" "vol d1 = vol d"
    using sd_file_ops(1)[OF ok, OF new] by (elim exE conjE) (rule that)
  let ?d2 = "snd (f_close F (snd (sdcard_sync_eeprom F ee1 True d1)))"
  have 2: "vol (snd (f_unlink F ?new ?d2)) = (vol d)(?new := None)"
    using sync_from_file[OF ok, OF 1(2), of c ee1] new 1(3) by (simp add: sd_okD(6,7)[OF ok] sd_file_ops(4)[OF ok])
  obtain d3 where 3: "f_open_rw F ?dat (snd (f_unlink F ?new ?d2)) = (FR_OK, d3)" "cur d3 = Some (?dat, 0)"
    and v3: "vol d3 = (vol (snd (f_unlink F ?new ?d2)))(?dat \<mapsto>
      (case vol (snd (f_unlink F ?new ?d2)) ?dat of None \<Rightarrow> [] | Some c \<Rightarrow> c))"
    using sd_okD(2)[OF ok, of ?dat "snd (f_unlink F ?new ?d2)"] by (elim exE conjE) (rule that)
  obtain c1 where c1: "vol d3 = (vol d)(?new := None, ?dat \<mapsto> c1)" using v3[unfolded 2] by (rule that)
  have "vol d3 ?dat = Some c1" by (simp only: c1 fun_upd_same)
  from sync_to_file[OF ok, OF 3(2) this assms(3)]
  obtain c' where "vol (snd (sdcard_sync_eeprom F ee2 False d3)) = (vol d3)(?dat \<mapsto> c')" "take EE_SIZE c' = ee2"
    by (elim exE conjE) (rule that)
  moreover have "process_eeprom F ee1 ee2 d = snd (f_close F (snd (sdcard_sync_eeprom F ee2 False d3)))"
    by (simp add: process_eeprom_def 1(1) 3(1))
  ultimately show ?thesis using c1 by (intro exI[of _ c']) (simp add: sd_file_ops(4)[OF ok])
qed

text \<open>A card, for the witnesses.\<close>

definition card_gets :: "nat \<Rightarrow> card \<Rightarrow> u8 list option \<times> card" where
  "card_gets n = (\<lambda>(v, cu). case cu of None \<Rightarrow> (None, (v, cu)) | Some (p, k) \<Rightarrow>
     (case v p of None \<Rightarrow> (None, (v, cu)) | Some c \<Rightarrow>
        (let w = takeWhile (\<lambda>b. b \<noteq> 10) (drop k c); l = take (n - 1) (take (Suc (length w)) (drop k c))
         in if l = [] then (None, (v, cu)) else (Some l, (v, Some (p, k + length l))))))"

definition sd_card :: "card sd_fatfs" where
  "sd_card = fatfs.extend card_fs \<lparr>
     f_gets = card_gets,
     f_open_rw = (\<lambda>p (v, cu). (0, (v(p \<mapsto> (case v p of None \<Rightarrow> [] | Some c \<Rightarrow> c)), Some (p, 0)))),
     f_lseek = (\<lambda>k (v, cu). (0, (v, map_option (\<lambda>(p, n). (p, k)) cu))),
     f_truncate = (\<lambda>(v, cu). (0, (case cu of None \<Rightarrow> v | Some (p, n) \<Rightarrow> v(p := map_option (take n) (v p)), cu))),
     f_sync = Pair 0,
     f_unlink = (\<lambda>p (v, cu). (0, (v(p := None), cu))),
     f_mount = (\<lambda>_. Pair 0), f_chdir = (\<lambda>_. Pair 0), f_unmount = (\<lambda>_. Pair 0)\<rparr>"

lemma sd_card_ok: "sd_ok sd_card fst snd"
  unfolding sd_ok_def
proof (intro conjI)
  show "fatfs_ok (fatfs.truncate sd_card) fst snd"
  proof -
    have "fatfs.truncate sd_card = card_fs" by (simp add: sd_card_def card_fs_def fatfs.truncate_def fatfs.extend_def)
    then show ?thesis using card_fs_ok by simp
  qed
qed (auto simp: sd_card_def fatfs.extend_def card_fs_def split: option.splits)

definition conf_card :: card where
  "conf_card = ([ascii ''NET.CNF'' \<mapsto> ascii ''addr 10.0.0.5'' @ [10] @ ascii ''hwaddr'', ascii ''EEPROM.NEW'' \<mapsto> [1, 2]],
     Some (ascii ''NET.CNF'', 0))"

definition conf_hw :: hw where
  "conf_hw = \<lparr>hw_in32 = \<lambda>_ _. 0, hw_in16 = \<lambda>_ _. 0, hw_i2c_tx = \<lambda>_ _ _. 0,
     hw_i2c_rx = \<lambda>_ _ _. (0, [2, 0, 0, 1, 2, 3]), hw_ddr = \<lambda>_ _. 0\<rparr>"

theorem eeprom_update_lost_witness:
  "\<exists>c'. fst (process_eeprom sd_card (replicate 256 7) (replicate 256 9) conf_card)
      = (fst conf_card)(ascii ''EEPROM.NEW'' := None, ascii ''EEPROM.DAT'' \<mapsto> c')
    \<and> take 256 c' = replicate 256 9"
  by (rule eeprom_update_lost[OF sd_card_ok, of conf_card "[1, 2]"]) (simp_all add: conf_card_def)

definition conf_aton :: "u8 list \<Rightarrow> u32 option" where
  "conf_aton s = (if s = ascii ''10.0.0.5'' then Some 0x0500000A else None)"

lemma card_gets_at:
  assumes "v p = Some c" "l = take (n - 1) (take (Suc (length (takeWhile (\<lambda>b. b \<noteq> 10) (drop k c)))) (drop k c))"
  shows "card_gets n (v, Some (p, k)) = (if l = [] then (None, (v, Some (p, k))) else (Some l, (v, Some (p, k + length l))))"
  unfolding card_gets_def prod.case option.case assms(1) Let_def assms(2)[symmetric] ..

lemma conf_card_lines:
  "gives_lines sd_card conf_card [ascii ''addr 10.0.0.5'' @ [10], ascii ''hwaddr'']
     (fst conf_card, Some (ascii ''NET.CNF'', 20))"
proof -
  let ?c = "ascii ''addr 10.0.0.5'' @ [10] @ ascii ''hwaddr''" and ?p = "ascii ''NET.CNF''"
  have c: "fst conf_card ?p = Some ?c"
    by (simp add: conf_card_def) (simp add: ascii_def)
  have 1: "ascii ''addr 10.0.0.5'' @ [10] = take (64 - 1) (take (Suc (length (takeWhile (\<lambda>b. b \<noteq> 10) (drop 0 ?c)))) (drop 0 ?c))"
    and 2: "ascii ''hwaddr'' = take (64 - 1) (take (Suc (length (takeWhile (\<lambda>b. b \<noteq> 10) (drop 14 ?c)))) (drop 14 ?c))"
    and 3: "[] = take (64 - 1) (take (Suc (length (takeWhile (\<lambda>b. b \<noteq> 10) (drop 20 ?c)))) (drop 20 ?c))"
    by code_simp+
  have n: "ascii ''hwaddr'' \<noteq> []" by code_simp
  have start: "conf_card = (fst conf_card, Some (?p, 0))" by (simp add: conf_card_def)
  have gets: "f_gets sd_card = card_gets" by (simp add: sd_card_def fatfs.extend_def)
  have "card_gets 64 (fst conf_card, Some (?p, 0)) = (Some (ascii ''addr 10.0.0.5'' @ [10]), (fst conf_card, Some (?p, 14)))"
    unfolding card_gets_at[of "fst conf_card", OF c 1] by simp
  moreover have "card_gets 64 (fst conf_card, Some (?p, 14)) = (Some (ascii ''hwaddr''), (fst conf_card, Some (?p, 20)))"
    unfolding card_gets_at[of "fst conf_card", OF c 2] using n by simp
  moreover have "card_gets 64 (fst conf_card, Some (?p, 20)) = (None, (fst conf_card, Some (?p, 20)))"
    unfolding card_gets_at[of "fst conf_card", OF c 3] by simp
  ultimately show ?thesis unfolding gives_lines.simps gets by (subst start) blast
qed

lemma conf_lines_effect:
  "line_effect conf_aton mac (ascii ''addr 10.0.0.5'' @ [10]) c = c\<lparr>addr := 0x0500000A, use_static := True\<rparr>"
  "line_effect conf_aton mac (ascii ''hwaddr'') c = c\<lparr>hwaddr := mac\<rparr>"
proof -
  have w: "line_words (ascii ''addr 10.0.0.5'' @ [10]) = Some (ascii ''addr'', Some (ascii ''10.0.0.5''))"
    "line_words (ascii ''hwaddr'') = Some (ascii ''hwaddr'', None)" "ascii ''addr'' \<noteq> ascii ''dhcp''"
    by code_simp+
  show "line_effect conf_aton mac (ascii ''addr 10.0.0.5'' @ [10]) c = c\<lparr>addr := 0x0500000A, use_static := True\<rparr>"
    unfolding line_effect_def w using w(3) by (simp add: conf_aton_def sdcard_parse_inet_def)
  show "line_effect conf_aton mac (ascii ''hwaddr'') c = c\<lparr>hwaddr := mac\<rparr>"
    unfolding line_effect_def w using hwaddr_word by simp
qed

theorem netconf_applied_witness:
  "fst (run_state (sdcard_netconf 3 sd_card conf_aton (replicate 64 0) net_config0 conf_card) (start_world conf_hw))
    = Some (\<lparr>addr = 0x0500000A, mask_ip = 0, gw = 0, use_static = True, hwaddr = [2, 0, 0, 1, 2, 3]\<rparr>,
        (fst conf_card, Some (ascii ''NET.CNF'', 20)))"
proof -
  have mac: "mac_eeprom (env (start_world conf_hw)) [2, 0, 0, 1, 2, 3]"
    by (simp add: mac_eeprom_def conf_hw_def fit_def)
  have no0: "\<forall>s \<in> set [ascii ''addr 10.0.0.5'' @ [10], ascii ''hwaddr'']. 0 \<notin> set s" by code_simp
  show ?thesis
    using netconf_applied[OF mac, OF conf_card_lines no0, of 3 conf_aton "replicate 64 0" net_config0]
    by (simp add: conf_lines_effect net_config0_def)
qed

end
