(* ===== verification/Network.thy ===== *)
theory Network imports Sdcard Psc_Msg begin

text \<open>
  What the main thread does once the scheduler runs (\<^verbatim>\<open>realmain\<close> of \<^verbatim>\<open>main.c\<close>): configure the network
  interface from the SD card (\<^verbatim>\<open>net_setup.c\<close>), answer discovery requests (\<^verbatim>\<open>discover.c\<close>). Calls of lwIP are
  the values of \<open>net_call\<close>; whether they succeed is a parameter.
\<close>

section \<open>Discovery\<close>

text \<open>\<open>discover_prep\<close> makes the one reply: a header and the git hash, with a serial number of 0 and
  two bytes of padding after it. There is none when no control block or no buffer can be had.\<close>

definition disco_reply :: "u32 \<Rightarrow> u8 list" where
  "disco_reply git_hash = header_bytes \<lparr>hP = CHR_P, hS = CHR_S, mid = htons 1234, mlen = htonl 8\<rparr>
     @ le32 (htonl git_hash) @ le16 0 @ [0, 0]"

definition discover_prep :: "bool \<Rightarrow> bool \<Rightarrow> u32 \<Rightarrow> u8 list option" where
  "discover_prep pcb_ok pbuf_ok git_hash = (if pcb_ok \<and> pbuf_ok then Some (disco_reply git_hash) else None)"

text \<open>
  \<open>disco_recv\<close> copies at most the 12 bytes of its structure out of the datagram; the serial number
  there is read and ignored. The result is what is sent back; \<open>pbuf_ok\<close> says whether a buffer for the
  answer could be allocated.
\<close>

definition disco_recv :: "bool \<Rightarrow> u8 list \<Rightarrow> u8 list \<Rightarrow> u8 list option" where
  "disco_recv pbuf_ok reply p =
    (let msg = take 12 p; n = length msg in
     if n < 8 then None
     else case header_of_bytes (take 8 msg) of
       None \<Rightarrow> None
     | Some h \<Rightarrow>
         if hP h \<noteq> CHR_P \<or> hS h \<noteq> CHR_S then None
         else if n - 8 < unat (ntohl (mlen h)) then None
         else if ntohs (mid h) \<noteq> 1234 then None
         else if pbuf_ok then Some reply else None)"

lemma header_of_frame: "header_of_bytes (take 8 (header_bytes h @ bs)) = Some h"
  by (simp add: header_bytes_def header_of_bytes_def le16_def le32_def)

lemma disco_recv_frame:
  "disco_recv ok r (header_bytes (make_header i l) @ bs) =
    (if min (length bs) 4 < unat l then None else if i \<noteq> 1234 then None else if ok then Some r else None)"
proof -
  have "length (header_bytes (make_header i l)) = 8" by (simp add: header_bytes_def le16_def le32_def)
  then show ?thesis
    using header_of_frame[of "make_header i l" "take 4 bs"]
    by (simp add: disco_recv_def Let_def make_header_def min_def)
qed

lemma disco_reply_frame: "disco_reply g = header_bytes (make_header 1234 8) @ be32 g @ [0, 0, 0, 0]"
  by (simp add: disco_reply_def make_header_def le32_htonl le16_def)

text \<open>
  Property C36 (safety): a request, a frame of message 1234 with a body of at most four bytes, is answered
  with one frame of message 1234; no board ever answers the reply of a board, so boards on a network do
  not keep each other busy.
\<close>

theorem discovery_exchange:
  assumes "length body \<le> 4"
  shows "disco_recv True (disco_reply git) (header_bytes (make_header 1234 (of_nat (length body))) @ body) = Some (disco_reply git)
    \<and> disco_reply git = header_bytes (make_header 1234 8) @ be32 git @ [0, 0, 0, 0]
    \<and> disco_recv ok r (disco_reply git') = None"
proof (intro conjI)
  have "unat (of_nat (length body) :: u32) = length body" using assms by (simp add: take_bit_nat_eq_self unsigned_of_nat)
  then show "disco_recv True (disco_reply git) (header_bytes (make_header 1234 (of_nat (length body))) @ body) = Some (disco_reply git)"
    using assms by (simp add: disco_recv_frame)
  show "disco_recv ok r (disco_reply git') = None"
    unfolding disco_reply_frame disco_recv_frame by simp
qed (rule disco_reply_frame)

theorem discovery_exchange_witness:
  "disco_recv True (disco_reply 0xABCD) ([0x50, 0x53] @ be16 1234 @ be32 2 @ [0, 7])
    = Some ([0x50, 0x53] @ be16 1234 @ be32 8 @ be32 0xABCD @ [0, 0, 0, 0])"
  using discovery_exchange[where body = "[0, 7]" and git = "0xABCD"]
  by (simp add: disco_reply_frame header_bytes_def make_header_def le16_htons le32_htonl)

section \<open>The interface\<close>

text \<open>The calls of \<open>net_setup\<close>, in order; the address family's values are as in \<open>net_config\<close>.\<close>

datatype net_call = Lwip_Init | Xemac_Add u32 u32 u32 "u8 list" | Netif_Set_Default | Netif_Set_Up
  | Start_NIC | Dhcp_Start | Start_Dhcpd

definition net_setup :: "bool \<Rightarrow> bool \<Rightarrow> net_config \<Rightarrow> net_call list" where
  "net_setup add_ok dhcp_ok conf =
    [Lwip_Init, Xemac_Add (addr conf) (mask_ip conf) (gw conf) (hwaddr conf)]
    @ (if \<not> add_ok then []
       else [Netif_Set_Default, Netif_Set_Up, Start_NIC]
         @ (if \<not> use_static conf then Dhcp_Start # (if dhcp_ok then [Start_Dhcpd] else []) else []))"

text \<open>
  The DHCP thread: after each delay of \<open>fine\<close> milliseconds (\<open>DHCP_FINE_TIMER_MSECS\<close>) the fine timer
  runs, and the coarse one when \<open>coarse\<close> seconds (\<open>DHCP_COARSE_TIMER_SECS\<close>) have passed. The state is
  \<open>mscnt\<close> and how often each timer has run.
\<close>

record dhcp =
  mscnt :: nat
  fine_tmr :: nat
  coarse_tmr :: nat

definition dhcp_turn :: "nat \<Rightarrow> nat \<Rightarrow> dhcp \<Rightarrow> dhcp" where
  "dhcp_turn fine coarse s =
    (let m = mscnt s + fine; s1 = s\<lparr>mscnt := m, fine_tmr := fine_tmr s + 1\<rparr> in
     if coarse * 1000 \<le> m then s1\<lparr>coarse_tmr := coarse_tmr s + 1, mscnt := 0\<rparr> else s1)"

definition dhcp0 :: dhcp where
  "dhcp0 = \<lparr>mscnt = 0, fine_tmr = 0, coarse_tmr = 0\<rparr>"

section \<open>The main thread\<close>

text \<open>
  \<open>realmain\<close> up to the PSC server, on the card \<open>d\<close>: what it asks of lwIP. The configuration starts as
  all zero.
\<close>

definition realmain :: "nat \<Rightarrow> 'd sd_fatfs \<Rightarrow> (u8 list \<Rightarrow> u32 option) \<Rightarrow> u8 list \<Rightarrow> u8 list \<Rightarrow> u8 list
    \<Rightarrow> bool \<Rightarrow> bool \<Rightarrow> 'd \<Rightarrow> (net_call list \<times> 'd) option io" where
  "realmain fuel F inet_aton lbuf ee1 ee2 add_ok dhcp_ok d = do {
     x \<leftarrow> sdcard_handle fuel F inet_aton lbuf ee1 ee2 net_config0 d;
     ret (map_option (\<lambda>(conf, d'). (net_setup add_ok dhcp_ok conf, d')) x)
   }"

section \<open>The timers\<close>

lemma dhcp_turns:
  assumes "0 < fine" "0 < coarse" "q = (coarse * 1000 + fine - 1) div fine"
  shows "(dhcp_turn fine coarse ^^ k) dhcp0 = \<lparr>mscnt = k mod q * fine, fine_tmr = k, coarse_tmr = k div q\<rparr>"
proof (induction k)
  case 0
  then show ?case by (simp add: dhcp0_def)
next
  case (Suc k)
  have q: "0 < q" using assms by (simp add: div_greater_zero_iff)
  have reach: "coarse * 1000 \<le> Suc j * fine \<longleftrightarrow> q \<le> Suc j" for j
  proof -
    have "q \<le> Suc j \<longleftrightarrow> (coarse * 1000 + fine - 1) div fine < Suc (Suc j)" using assms(3) by auto
    also have "\<dots> \<longleftrightarrow> coarse * 1000 + fine - 1 < Suc (Suc j) * fine" using assms(1) by (rule div_less_iff_less_mult)
    finally show ?thesis using assms(1,2) by auto
  qed
  have turn: "(dhcp_turn fine coarse ^^ Suc k) dhcp0
      = dhcp_turn fine coarse \<lparr>mscnt = k mod q * fine, fine_tmr = k, coarse_tmr = k div q\<rparr>" by (simp add: Suc)
  have due: "coarse * 1000 \<le> k mod q * fine + fine \<longleftrightarrow> q \<le> Suc (k mod q)" using reach[of "k mod q"] by (simp add: add.commute)
  show ?case
  proof (cases "q \<le> Suc (k mod q)")
    case True
    then have "Suc (k mod q) = q" using mod_less_divisor[OF q, of k] by simp
    then show ?thesis unfolding turn using True due by (simp add: dhcp_turn_def Let_def mod_Suc div_Suc)
  next
    case False
    then show ?thesis unfolding turn using due by (simp add: dhcp_turn_def Let_def mod_Suc div_Suc add.commute)
  qed
qed

section \<open>From the card to the interface\<close>

text \<open>
  The interface is set up from what NET.CNF on the first partition says, line
  by line from a configuration of zeros, and with a static address no DHCP client is started.
\<close>

lemma netconf_reaches_interface:
  assumes "mac_eeprom (env w) mac" "f_mount F (ascii ''0:/'') d = (FR_OK, d1)" "f_chdir F (ascii ''0:/'') d1 = (FR_OK, d2)"
    and "f_open F (ascii ''NET.CNF'') [FA_OPEN_EXISTING, FA_READ] d2 = (FR_OK, d3)"
    and "gives_lines F d3 ls e" "\<forall>s \<in> set ls. 0 \<notin> set s" "length ls < fuel"
    and conf: "conf = foldl (\<lambda>c s. line_effect inet_aton mac s c) net_config0 ls"
  shows "\<exists>d'. fst (run_state (realmain fuel F inet_aton lbuf ee1 ee2 add_ok dhcp_ok d) w) = Some (net_setup add_ok dhcp_ok conf, d')
    \<and> Xemac_Add (addr conf) (mask_ip conf) (gw conf) (hwaddr conf) \<in> set (net_setup add_ok dhcp_ok conf)
    \<and> (use_static conf \<longrightarrow> Dhcp_Start \<notin> set (net_setup add_ok dhcp_ok conf))"
proof -
  have n: "ends (env w) (sdcard_netconf fuel F inet_aton lbuf net_config0 d3) (\<lambda>r es. r = Some (conf, e))"
    unfolding conf by (rule ends_netconf[OF assms(1), OF assms(5,6,7)])
  have "ends (env w) (realmain fuel F inet_aton lbuf ee1 ee2 add_ok dhcp_ok d)
      (\<lambda>r es. \<exists>d'. r = Some (net_setup add_ok dhcp_ok conf, d'))"
    unfolding realmain_def sdcard_handle_def sdcard_trypart_def sdcard_process_def assms(2,3,4) prod.case
    by (simp only: simp_thms if_False, intro ends_bind, rule ends_weaken[OF n], simp add: ends_ret)
  from ends_events[OF this] show ?thesis by (auto simp: net_setup_def)
qed

lemma netconf_reaches_interface_instance:
  "\<exists>d'. fst (run_state (realmain 3 sd_card conf_aton (replicate 64 0) [] [] True True conf_card) (start_world conf_hw))
    = Some ([Lwip_Init, Xemac_Add 0x0500000A 0 0 [2, 0, 0, 1, 2, 3], Netif_Set_Default, Netif_Set_Up, Start_NIC], d')"
proof -
  have mac: "mac_eeprom (env (start_world conf_hw)) [2, 0, 0, 1, 2, 3]"
    by (simp add: mac_eeprom_def conf_hw_def fit_def)
  have no0: "\<forall>s \<in> set [ascii ''addr 10.0.0.5'' @ [10], ascii ''hwaddr'']. 0 \<notin> set s" by code_simp
  have ne: "ascii ''NET.CNF'' \<noteq> ascii ''EEPROM.NEW''" by code_simp
  have ops: "f_mount sd_card (ascii ''0:/'') conf_card = (FR_OK, conf_card)"
    "f_chdir sd_card (ascii ''0:/'') conf_card = (FR_OK, conf_card)"
    "f_open sd_card (ascii ''NET.CNF'') [FA_OPEN_EXISTING, FA_READ] conf_card = (FR_OK, conf_card)"
    using ne by (simp_all add: sd_card_def fatfs.extend_def card_fs_def conf_card_def)
  show ?thesis
    using netconf_reaches_interface[where add_ok = True and dhcp_ok = True and lbuf = "replicate 64 0" and ?ee1.0 = "[]" and ?ee2.0 = "[]",
        OF mac, OF ops conf_card_lines no0, of 3 _ conf_aton, OF _ refl]
    by (simp add: conf_lines_effect net_config0_def net_setup_def)
qed

end
