(* ===== verification/Tftp_Server.thy ===== *)
theory Tftp_Server imports Prelude begin

text \<open>
  \<^verbatim>\<open>tftp_server.c\<close>: one TFTP transfer at a time over UDP. The state is the static \<open>tftp_state\<close>, extended
  by what the handlers act on: the files behind the callbacks, the datagrams sent, the number of
  pending timeouts for \<open>tftp_tmr\<close> and a count of pbuf allocations. The file callbacks and lwIP's
  pbufs are an environment; a datagram is the list of its bytes.
\<close>

section \<open>State and environment\<close>

abbreviation (input) TFTP_MAX_PAYLOAD_SIZE :: nat where "TFTP_MAX_PAYLOAD_SIZE \<equiv> 512"
abbreviation (input) TFTP_HEADER_LENGTH :: nat where "TFTP_HEADER_LENGTH \<equiv> 4"
abbreviation (input) TFTP_RRQ :: u16 where "TFTP_RRQ \<equiv> 1"
abbreviation (input) TFTP_WRQ :: u16 where "TFTP_WRQ \<equiv> 2"
abbreviation (input) TFTP_DATA :: u16 where "TFTP_DATA \<equiv> 3"
abbreviation (input) TFTP_ACK :: u16 where "TFTP_ACK \<equiv> 4"
abbreviation (input) TFTP_ERROR :: u16 where "TFTP_ERROR \<equiv> 5"
abbreviation (input) TFTP_TIMEOUT_MSECS :: int where "TFTP_TIMEOUT_MSECS \<equiv> 10000"
abbreviation (input) TFTP_TIMER_MSECS :: int where "TFTP_TIMER_MSECS \<equiv> TFTP_TIMEOUT_MSECS div 10"
abbreviation (input) TFTP_MAX_RETRIES :: nat where "TFTP_MAX_RETRIES \<equiv> 5"
abbreviation (input) TFTP_MAX_FILENAME_LEN :: nat where "TFTP_MAX_FILENAME_LEN \<equiv> 20"
abbreviation (input) TFTP_MAX_MODE_LEN :: nat where "TFTP_MAX_MODE_LEN \<equiv> 7"

datatype tftp_error = FILE_NOT_FOUND | ACCESS_VIOLATION | DISK_FULL | ILLEGAL_OPERATION
  | UNKNOWN_TRFR_ID | FILE_EXISTS | NO_SUCH_USER

fun error_code :: "tftp_error \<Rightarrow> u16" where
  "error_code FILE_NOT_FOUND = 1"
| "error_code ACCESS_VIOLATION = 2"
| "error_code DISK_FULL = 3"
| "error_code ILLEGAL_OPERATION = 4"
| "error_code UNKNOWN_TRFR_ID = 5"
| "error_code FILE_EXISTS = 6"
| "error_code NO_SUCH_USER = 7"

text \<open>An address of 0 is the "any" address.\<close>

type_synonym ip = u32

text \<open>
  The callbacks of \<open>struct tftp_context\<close> over the files \<open>'f\<close> with handles \<open>'h\<close> (a failing \<open>open\<close> and a
  negative \<open>read\<close> are \<open>None\<close>, a negative \<open>write\<close> is \<open>False\<close>), \<open>pbuf_memfind\<close> for one byte,
  \<open>pbuf_copy_partial\<close> (packet, length, offset), and whether the k-th \<open>pbuf_alloc\<close>, for n bytes, succeeds.
\<close>

record ('f, 'h) tftp_env =
  e_open :: "u8 list \<Rightarrow> u8 list \<Rightarrow> bool \<Rightarrow> 'f \<Rightarrow> 'h option \<times> 'f"
  e_close :: "'h \<Rightarrow> 'f \<Rightarrow> 'f"
  e_read :: "'h \<Rightarrow> nat \<Rightarrow> 'f \<Rightarrow> u8 list option \<times> 'f"
  e_write :: "'h \<Rightarrow> u8 list \<Rightarrow> 'f \<Rightarrow> bool \<times> 'f"
  e_memfind :: "u8 list \<Rightarrow> u8 \<Rightarrow> nat \<Rightarrow> u16"
  e_copy :: "u8 list \<Rightarrow> nat \<Rightarrow> nat \<Rightarrow> u8 list"
  e_alloc :: "nat \<Rightarrow> nat \<Rightarrow> bool"

record ('f, 'h) tftp =
  handle :: "'h option"
  last_data :: "u8 list option"
  addr :: ip
  port :: u16
  timer :: int
  last_pkt :: int
  blknum :: u16
  retries :: nat
  mode_write :: bool
  files :: 'f
  sent :: "(ip \<times> u16 \<times> u8 list) list"
  timers :: nat
  allocs :: nat

section \<open>Operations\<close>

text \<open>\<open>sys_untimeout\<close> cancels one pending timeout, if there is any.\<close>

definition close_handle :: "('f, 'h) tftp_env \<Rightarrow> ('f, 'h) tftp \<Rightarrow> ('f, 'h) tftp" where
  "close_handle E s =
     (let s1 = s\<lparr>port := 0, addr := 0, last_data := None, timers := timers s - 1\<rparr> in
      case handle s of
        None \<Rightarrow> s1
      | Some h \<Rightarrow> s1\<lparr>files := e_close E h (files s1), handle := None\<rparr>)"

definition udp_send :: "('f, 'h) tftp_env \<Rightarrow> ip \<Rightarrow> u16 \<Rightarrow> u8 list \<Rightarrow> ('f, 'h) tftp \<Rightarrow> ('f, 'h) tftp" where
  "udp_send E a p bs s =
     (let s1 = s\<lparr>allocs := allocs s + 1\<rparr> in
      if e_alloc E (allocs s) (length bs) then s1\<lparr>sent := sent s1 @ [(a, p, bs)]\<rparr> else s1)"

definition send_error ::
  "('f, 'h) tftp_env \<Rightarrow> ip \<Rightarrow> u16 \<Rightarrow> tftp_error \<Rightarrow> string \<Rightarrow> ('f, 'h) tftp \<Rightarrow> ('f, 'h) tftp" where
  "send_error E a p code str =
     udp_send E a p (le16 (htons TFTP_ERROR) @ le16 (htons (error_code code)) @ ascii str @ [0])"

definition send_ack :: "('f, 'h) tftp_env \<Rightarrow> u16 \<Rightarrow> ('f, 'h) tftp \<Rightarrow> ('f, 'h) tftp" where
  "send_ack E b s = udp_send E (addr s) (port s) (le16 (htons TFTP_ACK) @ le16 (htons b)) s"

text \<open>\<open>resend_data\<close> sends a copy of \<open>last_data\<close>, here the argument.\<close>

definition resend_data :: "('f, 'h) tftp_env \<Rightarrow> u8 list \<Rightarrow> ('f, 'h) tftp \<Rightarrow> ('f, 'h) tftp" where
  "resend_data E d s = udp_send E (addr s) (port s) d s"

definition send_data :: "('f, 'h) tftp_env \<Rightarrow> 'h \<Rightarrow> ('f, 'h) tftp \<Rightarrow> ('f, 'h) tftp" where
  "send_data E h s =
     (let s1 = s\<lparr>last_data := None, allocs := allocs s + 1\<rparr> in
      if \<not> e_alloc E (allocs s) (TFTP_HEADER_LENGTH + TFTP_MAX_PAYLOAD_SIZE) then s1
      else case e_read E h TFTP_MAX_PAYLOAD_SIZE (files s1) of
        (None, f) \<Rightarrow> close_handle E (send_error E (addr s) (port s) ACCESS_VIOLATION
            ''Error occurred while reading the file.'' (s1\<lparr>files := f\<rparr>))
      | (Some bs, f) \<Rightarrow>
          (let d = le16 (htons TFTP_DATA) @ le16 (htons (blknum s)) @ bs
           in resend_data E d (s1\<lparr>files := f, last_data := Some d\<rparr>)))"

text \<open>
  The strings of a request. The offsets are 16 bit, as \<open>pbuf_memfind\<close> returns them (0xFFFF: not
  found); the buffers hold \<open>TFTP_MAX_FILENAME_LEN + 1\<close> and \<open>TFTP_MAX_MODE_LEN + 1\<close> bytes. The value
  is what \<open>pbuf_copy_partial\<close> put into the two buffers, zeros included.
\<close>

definition request_strings :: "('f, 'h) tftp_env \<Rightarrow> u8 list \<Rightarrow> string + u8 list \<times> u8 list" where
  "request_strings E p =
     (let fend = e_memfind E p 0 2 in
      if unat (fend - 1) > TFTP_MAX_FILENAME_LEN + 1 then Inl ''Filename too long/not NULL terminated''
      else
       (let filename = e_copy E p (unat fend - 1) 2;
            mend = e_memfind E p 0 (unat fend + 1) in
        if unat (mend - fend) > TFTP_MAX_MODE_LEN + 1 then Inl ''Mode too long/not NULL terminated''
        else Inr (filename, e_copy E p (unat mend - unat fend) (unat fend + 1))))"

text \<open>A C string: the bytes before the first zero.\<close>

definition c_string :: "u8 list \<Rightarrow> u8 list" where
  "c_string = takeWhile (\<lambda>b. b \<noteq> 0)"

definition recv_request ::
  "('f, 'h) tftp_env \<Rightarrow> ip \<Rightarrow> u16 \<Rightarrow> u8 list \<Rightarrow> bool \<Rightarrow> ('f, 'h) tftp \<Rightarrow> ('f, 'h) tftp" where
  "recv_request E a p pk write s =
     (if handle s \<noteq> None then
        send_error E a p ACCESS_VIOLATION ''Only one connection at a time is supported'' s
      else
       (let s1 = s\<lparr>timers := timers s + 1\<rparr> in
        case request_strings E pk of
          Inl msg \<Rightarrow> send_error E a p ACCESS_VIOLATION msg s1
        | Inr (filename, mode) \<Rightarrow>
           (case e_open E (c_string filename) (c_string mode) write (files s1) of
              (None, f) \<Rightarrow> send_error E a p FILE_NOT_FOUND ''Unable to open requested file.''
                             (s1\<lparr>blknum := 1, files := f\<rparr>)
            | (Some h, f) \<Rightarrow>
               (let s2 = s1\<lparr>blknum := 1, files := f, handle := Some h, addr := a, port := p,
                            mode_write := write\<rparr>
                in if write then send_ack E 0 s2 else send_data E h s2))))"

definition recv_data ::
  "('f, 'h) tftp_env \<Rightarrow> ip \<Rightarrow> u16 \<Rightarrow> u8 list \<Rightarrow> ('f, 'h) tftp \<Rightarrow> ('f, 'h) tftp option" where
  "recv_data E a p pk s = (case handle s of
     None \<Rightarrow> Some (send_error E a p ACCESS_VIOLATION ''No connection'' s)
   | Some h \<Rightarrow>
      if \<not> mode_write s then Some (send_error E a p ACCESS_VIOLATION ''Not a write connection'' s)
      else case ld16 pk 2 of
        None \<Rightarrow> None
      | Some w \<Rightarrow>
         (let b = ntohs w in
          if b = blknum s then
            (case e_write E h (drop TFTP_HEADER_LENGTH pk) (files s) of (ok, f) \<Rightarrow>
              (let s1 = s\<lparr>files := f\<rparr>;
                   s2 = (if \<not> ok then close_handle E (send_error E a p ACCESS_VIOLATION ''error writing file'' s1)
                         else send_ack E b s1)
               in Some (if length pk - TFTP_HEADER_LENGTH < TFTP_MAX_PAYLOAD_SIZE then close_handle E s2
                        else s2\<lparr>blknum := blknum s2 + 1\<rparr>)))
          else if b + 1 = blknum s then Some (send_ack E b s)
          else Some (send_error E a p UNKNOWN_TRFR_ID ''Wrong block number'' s)))"

definition recv_ack ::
  "('f, 'h) tftp_env \<Rightarrow> ip \<Rightarrow> u16 \<Rightarrow> u8 list \<Rightarrow> ('f, 'h) tftp \<Rightarrow> ('f, 'h) tftp option" where
  "recv_ack E a p pk s = (case handle s of
     None \<Rightarrow> Some (send_error E a p ACCESS_VIOLATION ''No connection'' s)
   | Some h \<Rightarrow>
      if mode_write s then Some (send_error E a p ACCESS_VIOLATION ''Not a read connection'' s)
      else case ld16 pk 2 of
        None \<Rightarrow> None
      | Some w \<Rightarrow>
          if ntohs w \<noteq> blknum s then Some (send_error E a p UNKNOWN_TRFR_ID ''Wrong block number'' s)
          else
           (let lastpkt = (case last_data s of None \<Rightarrow> False
                           | Some d \<Rightarrow> length d \<noteq> TFTP_MAX_PAYLOAD_SIZE + TFTP_HEADER_LENGTH)
            in Some (if \<not> lastpkt then send_data E h (s\<lparr>blknum := blknum s + 1\<rparr>) else close_handle E s)))"

text \<open>A datagram arrives. \<open>None\<close>: the code reads a header field the datagram does not have.\<close>

definition wrong_peer :: "('f, 'h) tftp \<Rightarrow> ip \<Rightarrow> u16 \<Rightarrow> bool" where
  "wrong_peer s a p \<longleftrightarrow> (port s \<noteq> 0 \<and> p \<noteq> port s) \<or> (addr s \<noteq> 0 \<and> addr s \<noteq> a)"

definition recv :: "('f, 'h) tftp_env \<Rightarrow> ip \<Rightarrow> u16 \<Rightarrow> u8 list \<Rightarrow> ('f, 'h) tftp \<Rightarrow> ('f, 'h) tftp option" where
  "recv E a p pk s =
     (if wrong_peer s a p then
        Some (send_error E a p ACCESS_VIOLATION ''Only one connection at a time is supported'' s)
      else case ld16 pk 0 of
        None \<Rightarrow> None
      | Some opcode \<Rightarrow>
         (let s1 = s\<lparr>last_pkt := timer s, retries := 0\<rparr> in
          if opcode = htons TFTP_RRQ \<or> opcode = htons TFTP_WRQ
            then Some (recv_request E a p pk (opcode = htons TFTP_WRQ) s1)
          else if opcode = htons TFTP_DATA then recv_data E a p pk s1
          else if opcode = htons TFTP_ACK then recv_ack E a p pk s1
          else Some (send_error E a p ILLEGAL_OPERATION ''Unknown operation'' s1)))"

text \<open>A pending timeout is due: lwIP takes it off its list and calls \<open>tftp_tmr\<close>.\<close>

definition tftp_tmr :: "('f, 'h) tftp_env \<Rightarrow> ('f, 'h) tftp \<Rightarrow> ('f, 'h) tftp" where
  "tftp_tmr E s =
     (let s1 = s\<lparr>timer := timer s + 1\<rparr> in
      if handle s1 = None then s1
      else
       (let s2 = s1\<lparr>timers := timers s1 + 1\<rparr> in
        if timer s2 - last_pkt s2 > TFTP_TIMEOUT_MSECS div TFTP_TIMER_MSECS then
          (case last_data s2 of
             Some d \<Rightarrow> if retries s2 < TFTP_MAX_RETRIES
                        then (resend_data E d s2)\<lparr>retries := retries s2 + 1\<rparr> else close_handle E s2
           | None \<Rightarrow> close_handle E s2)
        else s2))"

definition timeout_due :: "('f, 'h) tftp_env \<Rightarrow> ('f, 'h) tftp \<Rightarrow> ('f, 'h) tftp option" where
  "timeout_due E s = (if timers s = 0 then None else Some (tftp_tmr E (s\<lparr>timers := timers s - 1\<rparr>)))"

text \<open>After \<open>tftp_init\<close>; the rest of the static structure is zero.\<close>

definition tftp_init :: "'f \<Rightarrow> ('f, 'h) tftp" where
  "tftp_init f = \<lparr>handle = None, last_data = None, addr = 0, port = 0, timer = 0, last_pkt = 0,
     blknum = 0, retries = 0, mode_write = False, files = f, sent = [], timers = 0, allocs = 0\<rparr>"

text \<open>
  The call itself: \<open>udp_new_ip_type\<close> gives a control block or not, \<open>udp_bind\<close> an \<open>err_t\<close>; the server is
  there (and receives) only after both. The assertion of \<open>tftp_cleanup\<close> is its caller's duty; it closes the
  running transfer and clears the structure, while what is outside (files, lwIP's timeouts) stays.
\<close>

abbreviation (input) ERR_OK :: int where "ERR_OK \<equiv> 0"
abbreviation (input) ERR_MEM :: int where "ERR_MEM \<equiv> -1"

definition tftp_init_call :: "bool \<Rightarrow> int \<Rightarrow> 'f \<Rightarrow> int \<times> ('f, 'h) tftp option" where
  "tftp_init_call pcb_ok bind_err f =
     (if \<not> pcb_ok then (ERR_MEM, None)
      else if bind_err \<noteq> ERR_OK then (bind_err, None)
      else (ERR_OK, Some (tftp_init f)))"

definition tftp_cleanup :: "('f, 'h) tftp_env \<Rightarrow> ('f, 'h) tftp \<Rightarrow> ('f, 'h) tftp" where
  "tftp_cleanup E s =
     (let s1 = close_handle E s in
      (tftp_init (files s1))\<lparr>sent := sent s1, timers := timers s1, allocs := allocs s1\<rparr>)"

text \<open>The events of a run.\<close>

datatype tftp_event = Datagram ip u16 "u8 list" | Timeout

fun tftp_step :: "('f, 'h) tftp_env \<Rightarrow> tftp_event \<Rightarrow> ('f, 'h) tftp \<Rightarrow> ('f, 'h) tftp option" where
  "tftp_step E (Datagram a p pk) s = recv E a p pk s"
| "tftp_step E Timeout s = timeout_due E s"

fun tftp_run :: "('f, 'h) tftp_env \<Rightarrow> tftp_event list \<Rightarrow> ('f, 'h) tftp \<Rightarrow> ('f, 'h) tftp option" where
  "tftp_run E [] s = Some s"
| "tftp_run E (x # xs) s = Option.bind (tftp_step E x s) (tftp_run E xs)"

inductive tftp_next :: "('f, 'h) tftp_env \<Rightarrow> ('f, 'h) tftp \<Rightarrow> ('f, 'h) tftp \<Rightarrow> bool" for E where
  "tftp_step E x s = Some t \<Longrightarrow> tftp_next E s t"

inductive_cases tftp_nextE: "tftp_next E s t"

section \<open>The invariant\<close>

text \<open>
  Between transfers there is no peer and nothing to send again; during one a timeout is pending, so
  that it can end; the bookkeeping of the timeout is in range; a write keeps no data to resend.
\<close>

definition tftp_inv :: "('f, 'h) tftp \<Rightarrow> bool" where
  "tftp_inv s \<longleftrightarrow> (handle s = None \<longrightarrow> last_data s = None \<and> port s = 0 \<and> addr s = 0)
     \<and> (handle s \<noteq> None \<longrightarrow> 1 \<le> timers s)
     \<and> last_pkt s \<le> timer s \<and> retries s \<le> TFTP_MAX_RETRIES
     \<and> (mode_write s \<longrightarrow> last_data s = None)"

text \<open>Sending only adds a datagram or nothing.\<close>

definition same_but_sent :: "('f, 'h) tftp \<Rightarrow> ('f, 'h) tftp \<Rightarrow> bool" where
  "same_but_sent s t \<longleftrightarrow> t\<lparr>sent := sent s, allocs := allocs s\<rparr> = s"

lemma same_but_sentD:
  assumes "same_but_sent s t"
  shows "handle t = handle s" "last_data t = last_data s" "addr t = addr s" "port t = port s"
    "timer t = timer s" "last_pkt t = last_pkt s" "blknum t = blknum s" "retries t = retries s"
    "mode_write t = mode_write s" "files t = files s" "timers t = timers s"
  using assms unfolding same_but_sent_def by (cases s; cases t; simp)+

lemma udp_send_same: "same_but_sent s (udp_send E a p bs s)"
  by (simp add: same_but_sent_def udp_send_def Let_def)

lemma send_same:
  "same_but_sent s (send_error E a p c m s)" "same_but_sent s (send_ack E b s)"
  "same_but_sent s (resend_data E d s)"
  by (simp_all add: send_error_def send_ack_def resend_data_def udp_send_same)

lemmas send_simps = send_same[THEN same_but_sentD(1)] send_same[THEN same_but_sentD(2)]
  send_same[THEN same_but_sentD(3)] send_same[THEN same_but_sentD(4)]
  send_same[THEN same_but_sentD(5)] send_same[THEN same_but_sentD(6)]
  send_same[THEN same_but_sentD(7)] send_same[THEN same_but_sentD(8)]
  send_same[THEN same_but_sentD(9)] send_same[THEN same_but_sentD(10)]
  send_same[THEN same_but_sentD(11)]

declare send_simps [simp]

lemma close_handle_simps [simp]:
  "handle (close_handle E s) = None" "last_data (close_handle E s) = None"
  "port (close_handle E s) = 0" "addr (close_handle E s) = 0"
  "timer (close_handle E s) = timer s" "last_pkt (close_handle E s) = last_pkt s"
  "retries (close_handle E s) = retries s" "timers (close_handle E s) = timers s - 1"
  "sent (close_handle E s) = sent s" "mode_write (close_handle E s) = mode_write s"
  "files (close_handle E s) = (case handle s of None \<Rightarrow> files s | Some h \<Rightarrow> e_close E h (files s))"
  by (simp_all add: close_handle_def Let_def split: option.split)

lemma send_data_inv:
  assumes "handle s = Some h" "1 \<le> timers s" "last_pkt s \<le> timer s" "retries s \<le> TFTP_MAX_RETRIES"
    "\<not> mode_write s"
  shows "tftp_inv (send_data E h s)"
  using assms by (simp add: send_data_def tftp_inv_def Let_def split: option.split prod.split)

lemma tftp_inv_send [simp]:
  "tftp_inv (send_error E a p c m s) \<longleftrightarrow> tftp_inv s" "tftp_inv (send_ack E b s) \<longleftrightarrow> tftp_inv s"
  "tftp_inv (resend_data E d s) \<longleftrightarrow> tftp_inv s"
  by (simp_all add: tftp_inv_def)

lemma close_handle_inv:
  "last_pkt s \<le> timer s \<Longrightarrow> retries s \<le> TFTP_MAX_RETRIES \<Longrightarrow> tftp_inv (close_handle E s)"
  by (simp add: tftp_inv_def)

lemma recv_request_inv:
  assumes "tftp_inv s"
  shows "tftp_inv (recv_request E a p pk w s)"
proof (cases "handle s")
  case (Some h)
  with assms show ?thesis by (simp add: recv_request_def)
next
  case None
  with assms have st: "last_data s = None" "port s = 0" "addr s = 0" "last_pkt s \<le> timer s"
    "retries s \<le> TFTP_MAX_RETRIES" by (simp_all add: tftp_inv_def)
  have idle: "tftp_inv (s\<lparr>timers := n, blknum := b, files := f\<rparr>)"
    "tftp_inv (s\<lparr>timers := n\<rparr>)" for n b f
    using None st by (simp_all add: tftp_inv_def)
  have wr: "tftp_inv (s\<lparr>timers := Suc n, blknum := b, files := f, handle := Some h, addr := a, port := p,
      mode_write := True\<rparr>)" for n b f h
    using st by (simp add: tftp_inv_def)
  have rd: "tftp_inv (send_data E h (s\<lparr>timers := Suc n, blknum := b, files := f, handle := Some h, addr := a,
      port := p, mode_write := False\<rparr>))" for n b f h
    using st by (intro send_data_inv) simp_all
  show ?thesis
    using None idle wr rd
    by (auto simp: recv_request_def Let_def split: sum.split option.split prod.split)
qed

lemma recv_data_inv:
  assumes "tftp_inv s" "recv_data E a p pk s = Some t"
  shows "tftp_inv t"
proof -
  have st: "last_pkt s \<le> timer s" "retries s \<le> TFTP_MAX_RETRIES"
    using assms(1) by (simp_all add: tftp_inv_def)
  have upd: "tftp_inv (u\<lparr>blknum := b\<rparr>) \<longleftrightarrow> tftp_inv u" "tftp_inv (u\<lparr>files := f\<rparr>) \<longleftrightarrow> tftp_inv u" for u :: "('a, 'b) tftp" and b f
    by (simp_all add: tftp_inv_def)
  show ?thesis
    using assms st upd
    by (auto simp: recv_data_def Let_def close_handle_inv
        split: option.splits if_splits prod.splits)
qed

lemma recv_ack_inv:
  assumes "tftp_inv s" "recv_ack E a p pk s = Some t"
  shows "tftp_inv t"
proof -
  have st: "last_pkt s \<le> timer s" "retries s \<le> TFTP_MAX_RETRIES"
    using assms(1) by (simp_all add: tftp_inv_def)
  have next_block: "tftp_inv (send_data E h (s\<lparr>blknum := b\<rparr>))" if "handle s = Some h" "\<not> mode_write s" for h b
    using assms(1) that by (intro send_data_inv) (simp_all add: tftp_inv_def)
  show ?thesis
    using assms st next_block
    by (auto simp: recv_ack_def Let_def close_handle_inv split: option.splits if_splits)
qed

lemma recv_inv:
  assumes "tftp_inv s" "recv E a p pk s = Some t"
  shows "tftp_inv t"
proof -
  have "tftp_inv (s\<lparr>last_pkt := timer s, retries := 0\<rparr>)"
    using assms(1) by (simp add: tftp_inv_def)
  with assms show ?thesis
    by (auto simp: recv_def Let_def recv_request_inv dest: recv_data_inv recv_ack_inv
        split: option.splits if_splits)
qed

lemma tftp_tmr_inv:
  assumes "tftp_inv s"
  shows "tftp_inv (tftp_tmr E (s\<lparr>timers := n\<rparr>))"
  using assms
  by (cases "last_data s") (auto simp: tftp_tmr_def Let_def tftp_inv_def)

lemma tftp_step_inv: "tftp_step E x s = Some t \<Longrightarrow> tftp_inv s \<Longrightarrow> tftp_inv t"
  by (cases x) (auto simp: timeout_due_def split: if_splits intro: recv_inv tftp_tmr_inv)

lemma tftp_init_inv: "tftp_inv (tftp_init f)"
  by (simp add: tftp_inv_def tftp_init_def)

interpretation tftpd: inv_machine "\<lambda>s. \<exists>f. s = tftp_init f" "tftp_next E" tftp_inv for E
  by unfold_locales (auto elim!: tftp_nextE intro: tftp_step_inv tftp_init_inv)

lemma tftp_run_reachable: "tftp_run E xs s = Some t \<Longrightarrow> (tftp_next E)\<^sup>*\<^sup>* s t"
proof (induction xs arbitrary: s)
  case (Cons x xs)
  then obtain u where "tftp_step E x s = Some u" "tftp_run E xs u = Some t"
    by (auto simp: bind_eq_Some_conv)
  with Cons.IH show ?case
    by (meson converse_rtranclp_into_rtranclp tftp_next.intros)
qed simp

lemma tftp_run_inv: "tftp_run E xs (tftp_init f) = Some s \<Longrightarrow> tftp_inv s"
  by (rule tftpd.inv_reachable[OF _ tftp_run_reachable]) auto

section \<open>A silent peer\<close>

text \<open>How many more timeouts a transfer survives: until ten have passed since the last packet, and
  then, if there is data to resend, one per retry.\<close>

definition patience :: "('f, 'h) tftp \<Rightarrow> nat" where
  "patience s = nat (10 - (timer s - last_pkt s))
     + (if last_data s = None then 0 else TFTP_MAX_RETRIES - retries s)"

lemma patience_le: "tftp_inv s \<Longrightarrow> patience s \<le> 15"
  by (auto simp: patience_def tftp_inv_def)

lemma timeout_step:
  assumes "tftp_inv s" "handle s \<noteq> None"
  shows "\<exists>t. timeout_due E s = Some t \<and>
    (if patience s = 0 then handle t = None
     else handle t \<noteq> None \<and> patience t = patience s - 1)"
proof -
  obtain h where h: "handle s = Some h" using assms(2) by auto
  have st: "1 \<le> timers s" "last_pkt s \<le> timer s" "retries s \<le> TFTP_MAX_RETRIES"
    using assms by (simp_all add: tftp_inv_def)
  show ?thesis
  proof (cases "timer s - last_pkt s < 10")
    case True
    then have "\<not> timer s + 1 - last_pkt s > 10" by simp
    with True h st show ?thesis
      by (auto simp: timeout_due_def tftp_tmr_def Let_def patience_def)
  next
    case False
    then have "timer s + 1 - last_pkt s > 10" by simp
    with False h st show ?thesis
      by (cases "last_data s") (auto simp: timeout_due_def tftp_tmr_def Let_def patience_def)
  qed
qed

lemma timeouts_close:
  "tftp_inv s \<Longrightarrow> handle s \<noteq> None \<Longrightarrow>
   \<exists>t. tftp_run E (replicate (Suc (patience s)) Timeout) s = Some t \<and> handle t = None"
proof (induction "patience s" arbitrary: s)
  case 0
  then show ?case using timeout_step[of s E] by auto
next
  case (Suc n)
  then obtain t where t: "timeout_due E s = Some t" "handle t \<noteq> None" "patience t = n"
    using timeout_step[of s E] by (auto split: if_splits)
  moreover have "tftp_inv t" using t(1) Suc.prems(1) tftp_step_inv[of E Timeout s t] by simp
  ultimately obtain u where "tftp_run E (replicate (Suc n) Timeout) t = Some u" "handle u = None"
    using Suc.hyps(1)[of t] by auto
  with t(1) Suc.hyps(2) show ?case by (metis bind.bind_lunit replicate_Suc tftp_run.simps(2) tftp_step.simps(2))
qed

section \<open>The strings of a request\<close>

text \<open>
  lwIP's documented behaviour: \<open>pbuf_memfind\<close> gives the index of the first match at or after the start
  offset, or 0xFFFF when there is none; \<open>pbuf_copy_partial\<close> copies the bytes there are from an offset.
\<close>

definition pbufs_ok :: "('f, 'h) tftp_env \<Rightarrow> bool" where
  "pbufs_ok E \<longleftrightarrow>
     (\<forall>pre mid post. 0 \<notin> set mid \<longrightarrow> length (pre @ mid @ 0 # post) < 0xFFFF \<longrightarrow>
        e_memfind E (pre @ mid @ 0 # post) 0 (length pre) = of_nat (length pre + length mid))
   \<and> (\<forall>pre mid. 0 \<notin> set mid \<longrightarrow> e_memfind E (pre @ mid) 0 (length pre) = 0xFFFF)
   \<and> (\<forall>p len off. e_copy E p len off = take len (drop off p))"

lemma memfind_at:
  assumes "pbufs_ok E" "p = pre @ mid @ 0 # post" "0 \<notin> set mid" "off = length pre" "length p < 0xFFFF"
  shows "e_memfind E p 0 off = of_nat (off + length mid)"
proof -
  have "e_memfind E (pre @ mid @ 0 # post) 0 (length pre) = of_nat (length pre + length mid)"
    using assms(1)[unfolded pbufs_ok_def, THEN conjunct1, rule_format, OF assms(3)] assms(2,5) by blast
  with assms show ?thesis by (simp only:)
qed

lemma memfind_none:
  assumes "pbufs_ok E" "p = pre @ mid" "0 \<notin> set mid" "off = length pre"
  shows "e_memfind E p 0 off = 0xFFFF"
  unfolding assms(2,4)
  using assms(1)[unfolded pbufs_ok_def, THEN conjunct2, THEN conjunct1, rule_format, OF assms(3)] .

lemma pbuf_copied: "pbufs_ok E \<Longrightarrow> e_copy E p len off = take len (drop off p)"
  by (simp add: pbufs_ok_def)

lemma unat_u16: "n < 0x10000 \<Longrightarrow> unat (of_nat n :: u16) = n"
  by (simp add: unat_of_nat)

lemma u16_diff:
  assumes "n \<le> m" "m < 0x10000"
  shows "(of_nat m - of_nat n :: u16) = of_nat (m - n)"
  using assms by (simp add: of_nat_diff)

definition request :: "u16 \<Rightarrow> u8 list \<Rightarrow> u8 list \<Rightarrow> u8 list" where
  "request opcode name mode = be16 opcode @ name @ [0] @ mode @ [0]"

lemma request_strings_found:
  assumes ok: "pbufs_ok E" and z: "0 \<notin> set name" "0 \<notin> set mode" and hdr: "length hdr = 2"
    and len: "length (hdr @ name @ 0 # mode @ 0 # post) < 0xFFFF"
  shows "request_strings E (hdr @ name @ 0 # mode @ 0 # post) =
    (if length name > TFTP_MAX_FILENAME_LEN then Inl ''Filename too long/not NULL terminated''
     else if length mode > TFTP_MAX_MODE_LEN then Inl ''Mode too long/not NULL terminated''
     else Inr (name @ [0], mode @ [0]))"
proof -
  let ?p = "hdr @ name @ 0 # mode @ 0 # post"
  let ?f = "2 + length name" and ?m = "3 + length name + length mode"
  have fend: "e_memfind E ?p 0 2 = of_nat ?f"
    using memfind_at[OF ok _ z(1) _ len, of hdr "mode @ 0 # post" 2] hdr by simp
  have "e_memfind E ?p 0 (?f + 1) = of_nat (?f + 1 + length mode)"
    using hdr by (intro memfind_at[OF ok _ z(2) _ len, of "hdr @ name @ [0]" post]) simp_all
  then have mend: "e_memfind E ?p 0 (?f + 1) = of_nat ?m"
    by (simp only: numeral_eq_Suc pred_numeral_simps BitM.simps) simp
  have small: "?f < 0x10000" "?m < 0x10000" using len hdr by simp_all
  have d1: "unat (of_nat ?f - 1 :: u16) = 1 + length name"
    using u16_diff[of 1 ?f] small unat_u16[of "1 + length name"] by simp
  have d2: "unat (of_nat ?m - of_nat ?f :: u16) = 1 + length mode"
    using u16_diff[of ?f ?m] small unat_u16[of "1 + length mode"] by simp
  show ?thesis
    unfolding request_strings_def Let_def fend unat_u16[OF small(1)] mend unat_u16[OF small(2)] d1 d2 pbuf_copied[OF ok]
    using hdr by (auto simp: numeral_eq_Suc)
qed

lemma c_string_append0: "0 \<notin> set s \<Longrightarrow> c_string (s @ [0]) = s"
  unfolding c_string_def by (induction s) auto

text \<open>Any request the code accepts has two strings that end within their buffers.\<close>

lemma request_strings_safe:
  assumes ok: "pbufs_ok E" and pk: "2 \<le> length pk" "length pk < 0xFFFF"
    and acc: "request_strings E pk = Inr (f, m)"
  shows "\<exists>name mode post. pk = take 2 pk @ name @ 0 # mode @ 0 # post \<and> 0 \<notin> set name \<and> 0 \<notin> set mode
    \<and> f = name @ [0] \<and> m = mode @ [0] \<and> length name \<le> TFTP_MAX_FILENAME_LEN
    \<and> length mode \<le> TFTP_MAX_MODE_LEN"
proof -
  let ?h = "take 2 pk"
  have h: "length ?h = 2" "pk = ?h @ drop 2 pk" using pk by simp_all
  have "0 \<in> set (drop 2 pk)"
  proof (rule ccontr)
    assume "0 \<notin> set (drop 2 pk)"
    then have "e_memfind E pk 0 2 = 0xFFFF" using memfind_none[OF ok h(2)] h(1) by simp
    with acc show False by (simp add: request_strings_def Let_def)
  qed
  then obtain name rest where "drop 2 pk = name @ 0 # rest" and name: "0 \<notin> set name"
    by (meson split_list_first)
  with h(2) have split: "pk = ?h @ name @ 0 # rest" by simp
  have len: "length pk = 3 + length name + length rest"
    using arg_cong[OF split, of length] by (simp only: length_append h(1) list.size)
  have small: "2 + length name < 0x10000"
    using pk(2) len by simp
  have fend: "e_memfind E pk 0 2 = of_nat (2 + length name)"
    using memfind_at[OF ok split name _ pk(2)] h(1) by simp
  have short: "length name \<le> 20"
    using acc u16_diff[of 1 "2 + length name"] small unat_u16[of "1 + length name"]
    unfolding request_strings_def Let_def fend by (simp split: if_splits)
  have "0 \<in> set rest"
  proof (rule ccontr)
    assume nz: "0 \<notin> set rest"
    have sp: "pk = (?h @ name @ [0]) @ rest" using split by (simp only: append_assoc append.simps)
    have "e_memfind E pk 0 (2 + length name + 1) = 0xFFFF"
      by (rule memfind_none[OF ok sp nz]) (simp add: h(1) del: length_take)
    moreover have "unat (0xFFFF - of_nat (2 + length name) :: u16) = 0xFFFF - (2 + length name)"
      using u16_diff[of "2 + length name" "0xFFFF"] short unat_u16[of "0xFFFF - (2 + length name)"] by simp
    ultimately show False
      using acc short small unfolding request_strings_def Let_def fend unat_u16[OF small]
      by (simp split: if_splits)
  qed
  then obtain mode post where "rest = mode @ 0 # post" and mode: "0 \<notin> set mode"
    by (meson split_list_first)
  with split have full: "pk = ?h @ name @ 0 # mode @ 0 # post" by simp
  have "request_strings E pk = (if length name > TFTP_MAX_FILENAME_LEN then Inl ''Filename too long/not NULL terminated''
     else if length mode > TFTP_MAX_MODE_LEN then Inl ''Mode too long/not NULL terminated''
     else Inr (name @ [0], mode @ [0]))"
    by (rule request_strings_found[OF ok name mode h(1), of post, folded full, OF pk(2)])
  with acc full name mode show ?thesis by (auto split: if_splits)
qed

section \<open>An environment for the witnesses\<close>

text \<open>One file, given as its content and a position; \<open>pbuf_alloc\<close> always succeeds.\<close>

definition scan_memfind :: "u8 list \<Rightarrow> u8 \<Rightarrow> nat \<Rightarrow> u16" where
  "scan_memfind p z off =
     (let n = off + length (takeWhile (\<lambda>b. b \<noteq> z) (drop off p))
      in if n < length p then of_nat n else 0xFFFF)"

definition one_file :: "(u8 list \<times> nat, unit) tftp_env" where
  "one_file = \<lparr>e_open = (\<lambda>n m w (c, pos). (Some (), (c, 0))), e_close = (\<lambda>h f. f),
     e_read = (\<lambda>h n (c, pos). (Some (take n (drop pos c)), (c, pos + length (take n (drop pos c))))),
     e_write = (\<lambda>h d (c, pos). (True, (take pos c @ d @ drop (pos + length d) c, pos + length d))),
     e_memfind = scan_memfind, e_copy = (\<lambda>p len off. take len (drop off p)), e_alloc = (\<lambda>_ _. True)\<rparr>"

lemma takeWhile_all: "0 \<notin> set (mid :: u8 list) \<Longrightarrow> takeWhile (\<lambda>b. b \<noteq> 0) mid = mid"
  by (induction mid) auto

lemma takeWhile_upto: "0 \<notin> set (mid :: u8 list) \<Longrightarrow> takeWhile (\<lambda>b. b \<noteq> 0) (mid @ 0 # post) = mid"
  by (induction mid) auto

lemma one_file_pbufs: "pbufs_ok one_file"
  by (simp add: pbufs_ok_def one_file_def scan_memfind_def takeWhile_all takeWhile_upto)

text \<open>A write request from address 7, port 9, and the server after it.\<close>

lemma one_file_wrq:
  "recv one_file 7 9 (request TFTP_WRQ [65] [66]) (tftp_init ([], 0)) =
     Some ((send_ack one_file 0 (tftp_init ([], 0)\<lparr>timers := 1, blknum := 1, handle := Some (), addr := 7,
       port := 9, mode_write := True\<rparr>)))"
proof -
  have "request_strings one_file (request TFTP_WRQ [65] [66]) = Inr ([65, 0], [66, 0])"
    using request_strings_found[OF one_file_pbufs, of "[65]" "[66]" "be16 TFTP_WRQ" "[]"] by (simp add: request_def)
  moreover have "ld16 (request TFTP_WRQ [65] [66]) 0 = Some (htons TFTP_WRQ)"
    by (simp add: request_def ld16_be16)
  ultimately show ?thesis
    by (simp add: recv_def recv_request_def wrong_peer_def tftp_init_def Let_def one_file_def)
qed

section \<open>Properties\<close>

lemma send_error_to:
  "d \<in> set (drop (length (sent s)) (sent (send_error E a p c m s))) \<Longrightarrow> fst d = a \<and> fst (snd d) = p"
  by (simp add: send_error_def udp_send_def Let_def split: if_splits)

text \<open>
  Property C16 (liveness): a transfer cannot be left open. Whatever was received before, once the peer
  is silent at most sixteen timeouts, each a second after the one before, close the file and free
  the server for the next request.
\<close>

theorem silent_transfer_closes:
  assumes "tftp_run E evs (tftp_init f) = Some s" "handle s \<noteq> None"
  shows "\<exists>n t. n \<le> 16 \<and> tftp_run E (replicate n Timeout) s = Some t \<and> handle t = None"
proof -
  have inv: "tftp_inv s" using assms(1) by (rule tftp_run_inv)
  from timeouts_close[OF inv assms(2)] patience_le[OF inv] show ?thesis
    by (metis Suc_le_mono eval_nat_numeral(2) semiring_norm(26) semiring_norm(27))
qed

theorem silent_transfer_closes_witness:
  "\<exists>s. tftp_run one_file [Datagram 7 9 (request TFTP_WRQ [65] [66])] (tftp_init ([], 0)) = Some s
    \<and> (\<exists>n t. n \<le> 16 \<and> tftp_run one_file (replicate n Timeout) s = Some t \<and> handle t = None)"
  using silent_transfer_closes[of one_file "[Datagram 7 9 (request TFTP_WRQ [65] [66])]" "([], 0)"]
  by (simp add: one_file_wrq)

text \<open>
  Property C24 (type): in every reachable state, between transfers no peer is remembered and there
  is nothing to resend; during one a timeout is pending; a write never has data to resend.
\<close>

theorem transfer_state_consistent:
  assumes "tftp_run E evs (tftp_init f) = Some s"
  shows "if handle s = None then last_data s = None \<and> port s = 0 \<and> addr s = 0
    else 1 \<le> timers s \<and> retries s \<le> TFTP_MAX_RETRIES \<and> (if mode_write s then last_data s = None else True)"
  using tftp_run_inv[OF assms] by (simp add: tftp_inv_def)

theorem transfer_state_consistent_witness:
  "last_data (tftp_init ([] :: u8 list, 0 :: nat) :: (u8 list \<times> nat, unit) tftp) = None"
  using transfer_state_consistent[of one_file "[]" "([], 0)" "tftp_init ([], 0)"]
  by (simp add: tftp_init_def)

text \<open>
  A datagram from any other address or port than the current peer's changes nothing but the list of
  datagrams sent: it is answered with an error at most.
\<close>

lemma other_peers_isolated:
  assumes "wrong_peer s a p"
  shows "\<exists>t. recv E a p pk s = Some t \<and> same_but_sent s t
    \<and> (\<forall>d \<in> set (drop (length (sent s)) (sent t)). fst d = a \<and> fst (snd d) = p)"
proof -
  have "recv E a p pk s =
      Some (send_error E a p ACCESS_VIOLATION ''Only one connection at a time is supported'' s)"
    using assms by (simp add: recv_def)
  then show ?thesis
    using send_same(1) send_error_to by blast
qed

text \<open>
  After \<open>tftp_cleanup\<close> the running transfer's file is closed and the server is idle; a timeout that is still
  pending ends without being set again, so none is left after them.
\<close>

lemma tftp_cleanup_idle:
  "tftp_inv (tftp_cleanup E s)" "handle (tftp_cleanup E s) = None"
  "files (tftp_cleanup E s) = (case handle s of None \<Rightarrow> files s | Some h \<Rightarrow> e_close E h (files s))"
  "timers (tftp_cleanup E s) = timers s - 1"
  by (simp_all add: tftp_cleanup_def tftp_inv_def tftp_init_def Let_def)

lemma idle_timeouts_end:
  "handle s = None \<Longrightarrow> \<exists>t. tftp_run E (replicate (timers s) Timeout) s = Some t \<and> timers t = 0 \<and> sent t = sent s"
proof (induction "timers s" arbitrary: s)
  case (Suc n)
  let ?t = "s\<lparr>timers := n, timer := timer s + 1\<rparr>"
  have "timeout_due E s = Some ?t"
    using Suc.prems Suc.hyps(2)[symmetric] by (simp add: timeout_due_def tftp_tmr_def Let_def)
  with Suc.hyps(1)[of ?t] Suc.prems Suc.hyps(2)[symmetric] show ?case by simp
qed simp

text \<open>
  Property C25 (functional): a request's name and mode are taken from the datagram exactly when they
  fit their buffers of 21 and 8 bytes with their zero; an accepted request never has copied more, and
  both buffers hold a terminated string.
\<close>

theorem request_strings_parsed:
  assumes "pbufs_ok E" "0 \<notin> set name" "0 \<notin> set mode" "length (request opcode name mode) < 0xFFFF"
    and "2 \<le> length pk" "length pk < 0xFFFF"
  shows "request_strings E (request opcode name mode) =
      (if length name > TFTP_MAX_FILENAME_LEN then Inl ''Filename too long/not NULL terminated''
       else if length mode > TFTP_MAX_MODE_LEN then Inl ''Mode too long/not NULL terminated''
       else Inr (name @ [0], mode @ [0]))
    \<and> (case request_strings E pk of Inl _ \<Rightarrow> True | Inr (f, m) \<Rightarrow>
        length f \<le> TFTP_MAX_FILENAME_LEN + 1 \<and> length m \<le> TFTP_MAX_MODE_LEN + 1
        \<and> length (c_string f) < length f \<and> length (c_string m) < length m)"
proof
  show "request_strings E (request opcode name mode) =
      (if length name > TFTP_MAX_FILENAME_LEN then Inl ''Filename too long/not NULL terminated''
       else if length mode > TFTP_MAX_MODE_LEN then Inl ''Mode too long/not NULL terminated''
       else Inr (name @ [0], mode @ [0]))"
    using request_strings_found[OF assms(1-3), of "be16 opcode" "[]"] assms(4) by (simp add: request_def)
  show "case request_strings E pk of Inl _ \<Rightarrow> True | Inr (f, m) \<Rightarrow>
        length f \<le> TFTP_MAX_FILENAME_LEN + 1 \<and> length m \<le> TFTP_MAX_MODE_LEN + 1
        \<and> length (c_string f) < length f \<and> length (c_string m) < length m"
    using request_strings_safe[OF assms(1,5,6)]
    by (auto simp: c_string_append0 split: sum.split)
qed

theorem request_strings_parsed_witness:
  "request_strings one_file (request TFTP_RRQ (replicate 20 65) [111]) = Inr (replicate 20 65 @ [0], [111, 0])
   \<and> request_strings one_file (request TFTP_RRQ (replicate 21 65) [111])
      = Inl ''Filename too long/not NULL terminated''"
  using request_strings_parsed[OF one_file_pbufs, of "replicate 20 65" "[111]" TFTP_RRQ "[0, 1]"]
    request_strings_parsed[OF one_file_pbufs, of "replicate 21 65" "[111]" TFTP_RRQ "[0, 1]"]
  by (simp add: request_def)

text \<open>
  Property C26 (error): the length of a datagram is never checked. The handler reads beyond it exactly
  when the peer is acceptable and it has no opcode, or it is a data block or an acknowledgement for
  the running transfer without a block number.
\<close>

theorem short_datagram_read_outside:
  "recv E a p pk s = None \<longleftrightarrow>
     \<not> wrong_peer s a p \<and>
     (length pk < 2 \<or>
      (length pk < 4 \<and> handle s \<noteq> None \<and>
       take 2 pk = (if mode_write s then be16 TFTP_DATA else be16 TFTP_ACK)))"
proof -
  have op: "ld16 pk 0 = Some (htons w) \<longleftrightarrow> 2 \<le> length pk \<and> take 2 pk = be16 w" for w
    using un_le16_only[of "take 2 pk" "htons w"] le16.dec_enc[of "htons w"]
    by (auto simp: ld16_def ld_def byte_simps bind_eq_Some_conv)
  have op_len: "ld16 pk 0 = None \<longleftrightarrow> length pk < 2" and blk_len: "ld16 pk 2 = None \<longleftrightarrow> length pk < 4"
    using ld16_Some_iff[of pk 0] ld16_Some_iff[of pk 2] by (auto simp: not_less)
  have ne: "htons x \<noteq> htons y" if "x \<noteq> y" for x y
    using that by (metis htons_htons)
  have data: "recv_data E a p pk t = None \<longleftrightarrow> handle t \<noteq> None \<and> mode_write t \<and> length pk < 4" for t
    by (auto simp: recv_data_def Let_def blk_len[symmetric] split: option.split prod.split)
  have ack: "recv_ack E a p pk t = None \<longleftrightarrow> handle t \<noteq> None \<and> \<not> mode_write t \<and> length pk < 4" for t
    by (auto simp: recv_ack_def Let_def blk_len[symmetric] split: option.split)
  show ?thesis
  proof (cases "ld16 pk 0")
    case None
    then show ?thesis using op_len by (simp add: recv_def)
  next
    case (Some w)
    then have two: "\<not> length pk < 2" and w: "take 2 pk = be16 v \<longleftrightarrow> w = htons v" for v
      using op_len op[of v] by auto
    have "htons TFTP_RRQ \<noteq> htons TFTP_DATA" "htons TFTP_WRQ \<noteq> htons TFTP_DATA"
      "htons TFTP_RRQ \<noteq> htons TFTP_ACK" "htons TFTP_WRQ \<noteq> htons TFTP_ACK" "htons TFTP_DATA \<noteq> htons TFTP_ACK"
      by (intro ne; simp)+
    moreover have "(\<exists>y. recv_data E a p pk u = Some y) \<longleftrightarrow> recv_data E a p pk u \<noteq> None"
      "(\<exists>y. recv_ack E a p pk u = Some y) \<longleftrightarrow> recv_ack E a p pk u \<noteq> None" for u
      by simp_all
    ultimately show ?thesis
      using Some two by (auto simp: recv_def Let_def data ack w simp del: not_None_eq)
  qed
qed

end
