(* ===== verification/Tftp_Transfer.thy ===== *)
theory Tftp_Transfer imports Tftp_Server Tftp_Handler begin

text \<open>
  Whole TFTP transfers: the server of \<^verbatim>\<open>tftp_server.c\<close> with the SD card callbacks of
  \<^verbatim>\<open>tftp_handler.c\<close>. A download is the request and one acknowledgement per block, an upload the request
  and the data blocks, each possibly repeated by a peer that missed an answer; in between time passes, and the server
  sends a block again whose acknowledgement does not come.
\<close>

section \<open>The files behind the callbacks\<close>

definition alloc_ok :: "('f, 'h) tftp_env \<Rightarrow> bool" where
  "alloc_ok E \<longleftrightarrow> (\<forall>k n. e_alloc E k n)"

text \<open>The environment the firmware runs the server in: the SD card.\<close>

definition sdcard_env ::
  "'d fatfs \<Rightarrow> (u8 list \<Rightarrow> u8 \<Rightarrow> nat \<Rightarrow> u16) \<Rightarrow> (u8 list \<Rightarrow> nat \<Rightarrow> nat \<Rightarrow> u8 list) \<Rightarrow> (nat \<Rightarrow> nat \<Rightarrow> bool)
    \<Rightarrow> ('d, unit) tftp_env" where
  "sdcard_env F memfind copy al = \<lparr>e_open = tftp_sdcard_open F, e_close = (\<lambda>_. tftp_sdcard_close F),
     e_read = (\<lambda>_. tftp_sdcard_read F), e_write = (\<lambda>_ p. tftp_sdcard_write F [p]),
     e_memfind = memfind, e_copy = copy, e_alloc = al\<rparr>"

text \<open>The open file seen as the file \<open>name\<close>, and the other files.\<close>

definition card_view ::
  "('d \<Rightarrow> u8 list \<rightharpoonup> u8 list) \<Rightarrow> ('d \<Rightarrow> (u8 list \<times> nat) option) \<Rightarrow> u8 list \<Rightarrow> 'd \<Rightarrow> (u8 list \<times> nat) option" where
  "card_view vol cur name d = (case (cur d, vol d name) of
     (Some (p, n), Some c) \<Rightarrow> if p = name then Some (c, n) else None | _ \<Rightarrow> None)"

definition card_others :: "('d \<Rightarrow> u8 list \<rightharpoonup> u8 list) \<Rightarrow> u8 list \<Rightarrow> 'd \<Rightarrow> u8 list \<rightharpoonup> u8 list" where
  "card_others vol name d = (vol d)(name := None)"

lemma card_view_Some: "card_view vol cur name d = Some (c, n) \<longleftrightarrow> cur d = Some (name, n) \<and> vol d name = Some c"
  by (auto simp: card_view_def split: option.splits if_splits)

section \<open>Packets\<close>

definition data_pkt :: "u16 \<Rightarrow> u8 list \<Rightarrow> u8 list" where
  "data_pkt b d = be16 TFTP_DATA @ be16 b @ d"

definition ack_pkt :: "u16 \<Rightarrow> u8 list" where
  "ack_pkt b = be16 TFTP_ACK @ be16 b"

text \<open>The blocks of a file: all but the last are full, and the last one never is.\<close>

function blocks :: "u8 list \<Rightarrow> u8 list list" where
  "blocks c = (if length c < TFTP_MAX_PAYLOAD_SIZE then [c]
     else take TFTP_MAX_PAYLOAD_SIZE c # blocks (drop TFTP_MAX_PAYLOAD_SIZE c))"
  by pat_completeness auto
termination by (relation "measure length") auto

declare blocks.simps [simp del]

fun numbered :: "u16 \<Rightarrow> 'a list \<Rightarrow> (u16 \<times> 'a) list" where
  "numbered b [] = []"
| "numbered b (x # xs) = (b, x) # numbered (b + 1) xs"

lemma concat_blocks: "concat (blocks c) = c"
proof (induction c rule: blocks.induct)
  case (1 c)
  then show ?case by (cases "length c < 512") (simp_all add: blocks.simps[of c])
qed

lemma pkt_fields:
  "ld16 (data_pkt b d) 0 = Some (htons TFTP_DATA)" "ld16 (data_pkt b d) 2 = Some (htons b)"
  "ld16 (ack_pkt b) 0 = Some (htons TFTP_ACK)" "ld16 (ack_pkt b) 2 = Some (htons b)"
  "drop TFTP_HEADER_LENGTH (data_pkt b d) = d" "length (data_pkt b d) = TFTP_HEADER_LENGTH + length d"
proof -
  have "ld16 (be16 x @ be16 b @ r) 2 = Some (htons b)" for x r
    by (simp add: ld16_drop ld16_be16)
  from this[of _ "[]"] this[of _ d] show "ld16 (data_pkt b d) 2 = Some (htons b)" "ld16 (ack_pkt b) 2 = Some (htons b)"
    by (simp_all add: data_pkt_def ack_pkt_def)
  show "ld16 (ack_pkt b) 0 = Some (htons TFTP_ACK)" "ld16 (data_pkt b d) 0 = Some (htons TFTP_DATA)"
    by (simp_all add: data_pkt_def ack_pkt_def ld16_be16)
  show "drop TFTP_HEADER_LENGTH (data_pkt b d) = d" "length (data_pkt b d) = TFTP_HEADER_LENGTH + length d"
    by (simp_all add: data_pkt_def)
qed

text \<open>The opcodes differ after the swap too.\<close>

lemma htons_inject: "htons x = htons y \<longleftrightarrow> x = y"
  by (metis htons_htons)

section \<open>Downloads\<close>

text \<open>Block \<open>b\<close> was sent, and \<open>c\<close> is the rest of the file, that block included.\<close>

definition reading ::
  "('f \<Rightarrow> (u8 list \<times> nat) option) \<Rightarrow> 'h \<Rightarrow> ip \<Rightarrow> u16 \<Rightarrow> u16 \<Rightarrow> u8 list \<Rightarrow> ('f, 'h) tftp \<Rightarrow> bool" where
  "reading view h a p b c s \<longleftrightarrow> handle s = Some h \<and> \<not> mode_write s \<and> blknum s = b \<and> addr s = a \<and> port s = p
     \<and> last_data s = Some (data_pkt b (take TFTP_MAX_PAYLOAD_SIZE c))
     \<and> (\<exists>full n. view (files s) = Some (full, n) \<and> drop n full = drop TFTP_MAX_PAYLOAD_SIZE c)"

lemma udp_send_alloc: "alloc_ok E \<Longrightarrow> udp_send E a p bs s = s\<lparr>allocs := allocs s + 1, sent := sent s @ [(a, p, bs)]\<rparr>"
  by (simp add: udp_send_def alloc_ok_def)

definition acks :: "ip \<Rightarrow> u16 \<Rightarrow> u16 \<Rightarrow> u8 list \<Rightarrow> tftp_event list" where
  "acks a p b c = map (\<lambda>(b, _). Datagram a p (ack_pkt b)) (numbered b (blocks c))"

definition blocks_sent :: "ip \<Rightarrow> u16 \<Rightarrow> u16 \<Rightarrow> u8 list \<Rightarrow> (ip \<times> u16 \<times> u8 list) list" where
  "blocks_sent a p b c = map (\<lambda>(b, d). (a, p, data_pkt b d)) (numbered b (blocks c))"

text \<open>
  The same with answers that take their time: before the acknowledgement of each block its number of
  periods of \<open>tftp_tmr\<close> passes. From the eleventh on the server sends the block again in each.
\<close>

definition waiting :: "('f, 'h) tftp \<Rightarrow> bool" where
  "waiting s \<longleftrightarrow> timers s = 1 \<and> retries s = 0 \<and> last_pkt s = timer s"

fun slow_acks :: "ip \<Rightarrow> u16 \<Rightarrow> u16 \<Rightarrow> nat list \<Rightarrow> tftp_event list" where
  "slow_acks a p b [] = []"
| "slow_acks a p b (n # ns) = replicate n Timeout @ Datagram a p (ack_pkt b) # slow_acks a p (b + 1) ns"

fun slow_blocks :: "ip \<Rightarrow> u16 \<Rightarrow> u16 \<Rightarrow> nat list \<Rightarrow> u8 list list \<Rightarrow> (ip \<times> u16 \<times> u8 list) list" where
  "slow_blocks a p b (n # ns) (d # ds) = replicate (Suc (n - 10)) (a, p, data_pkt b d) @ slow_blocks a p (b + 1) ns ds"
| "slow_blocks a p b _ _ = []"

section \<open>Uploads\<close>

text \<open>Block \<open>b\<close> is expected next; the file holds \<open>c\<close> and the position is \<open>n\<close>.\<close>

definition writing ::
  "('f \<Rightarrow> (u8 list \<times> nat) option) \<Rightarrow> 'h \<Rightarrow> ip \<Rightarrow> u16 \<Rightarrow> u16 \<Rightarrow> u8 list \<Rightarrow> nat \<Rightarrow> ('f, 'h) tftp \<Rightarrow> bool" where
  "writing view h a p b c n s \<longleftrightarrow> handle s = Some h \<and> mode_write s \<and> blknum s = b \<and> addr s = a \<and> port s = p
     \<and> view (files s) = Some (c, n) \<and> n \<le> length c"

definition idle :: "('f, 'h) tftp \<Rightarrow> bool" where
  "idle s \<longleftrightarrow> handle s = None \<and> port s = 0 \<and> addr s = 0"

lemma tftp_run_append: "tftp_run E (xs @ ys) s = Option.bind (tftp_run E xs s) (tftp_run E ys)"
proof (induction xs arbitrary: s)
  case (Cons x xs)
  then show ?case by (cases "tftp_step E x s") simp_all
qed simp

lemma recv_data_pkt:
  "\<not> wrong_peer s a p \<Longrightarrow> recv E a p (data_pkt b d) s =
     recv_data E a p (data_pkt b d) (s\<lparr>last_pkt := timer s, retries := 0\<rparr>)"
  by (simp add: recv_def pkt_fields htons_inject)

text \<open>A block that was written already is acknowledged again and not written again.\<close>

lemma repeat_writing:
  assumes "writing view h a p (b + 1) c n s"
  shows "\<exists>t. recv E a p (data_pkt b d) s = Some t \<and> writing view h a p (b + 1) c n t \<and> files t = files s"
proof -
  have peer: "\<not> wrong_peer s a p" using assms by (simp add: writing_def wrong_peer_def)
  have ne: "b \<noteq> b + 1" by simp
  show ?thesis
    using assms ne by (simp add: recv_data_pkt[OF peer] recv_data_def writing_def pkt_fields Let_def)
qed

lemma repeat_idle:
  assumes "idle s"
  shows "\<exists>t. recv E a p (data_pkt b d) s = Some t \<and> idle t \<and> files t = files s"
proof -
  have peer: "\<not> wrong_peer s a p" using assms by (simp add: idle_def wrong_peer_def)
  show ?thesis
    using assms by (simp add: recv_data_pkt[OF peer] recv_data_def idle_def)
qed

lemma repeats:
  "writing view h a p (b + 1) c n s \<Longrightarrow> \<exists>t. tftp_run E (replicate r (Datagram a p (data_pkt b d))) s = Some t
     \<and> writing view h a p (b + 1) c n t \<and> files t = files s"
  "idle s \<Longrightarrow> \<exists>t. tftp_run E (replicate r (Datagram a p (data_pkt b d))) s = Some t \<and> idle t \<and> files t = files s"
proof (induction r arbitrary: s)
  case (Suc r)
  { case 1
    then obtain u where "recv E a p (data_pkt b d) s = Some u" "writing view h a p (b + 1) c n u" "files u = files s"
      using repeat_writing[OF 1, of E d] by blast
    with Suc.IH(1)[of u] show ?case by auto
  next
    case 2
    then obtain u where "recv E a p (data_pkt b d) s = Some u" "idle u" "files u = files s"
      using repeat_idle[OF 2, of E a p b d] by blast
    with Suc.IH(2)[of u] show ?case by auto }
qed simp_all

text \<open>The data blocks of an upload, block after block, each sent once and then repeated \<open>r\<close> times.\<close>

fun upload_events :: "ip \<Rightarrow> u16 \<Rightarrow> u16 \<Rightarrow> (u8 list \<times> nat) list \<Rightarrow> tftp_event list" where
  "upload_events a p b [] = []"
| "upload_events a p b ((d, r) # ds) =
     replicate (Suc r) (Datagram a p (data_pkt b d)) @ upload_events a p (b + 1) ds"

section \<open>Interface: the files behind the callbacks\<close>

text \<open>
  What the server relies on its callbacks for while a file is open with handle \<open>h\<close>. \<open>view\<close> is the content
  and position of that file and \<open>oth\<close> everything else: a read delivers the next bytes, a write puts its
  bytes at the position and leaves everything else alone.
\<close>

locale served_files =
  fixes E :: "('f, 'h) tftp_env" and h :: 'h and view :: "'f \<Rightarrow> (u8 list \<times> nat) option" and oth :: "'f \<Rightarrow> 'o"
  assumes reads: "view f = Some (c, n) \<Longrightarrow> \<exists>f'. e_read E h k f = (Some (take k (drop n c)), f')
        \<and> view f' = Some (c, n + length (take k (drop n c)))"
    and writes: "view f = Some (c, n) \<Longrightarrow> n \<le> length c \<Longrightarrow> \<exists>f'. e_write E h d f = (True, f')
        \<and> view f' = Some (overwrite c n d, n + length d) \<and> oth f' = oth f"
begin

lemma send_data_reading:
  assumes "alloc_ok E" "handle s = Some h" "\<not> mode_write s"
    and "view (files s) = Some (full, n)"
  shows "reading view h (addr s) (port s) (blknum s) (drop n full) (send_data E h s)
    \<and> sent (send_data E h s) =
        sent s @ [(addr s, port s, data_pkt (blknum s) (take TFTP_MAX_PAYLOAD_SIZE (drop n full)))]
    \<and> (waiting (send_data E h s) \<longleftrightarrow> waiting s)"
proof -
  obtain f where f: "e_read E h 512 (files s) = (Some (take 512 (drop n full)), f)"
    "view f = Some (full, n + length (take 512 (drop n full)))"
    using reads[OF assms(4)] by blast
  have "drop (n + length (take 512 (drop n full))) full = drop 512 (drop n full)"
    by (cases "512 \<le> length full - n") (simp_all add: add.commute)
  with assms f show ?thesis
    by (simp add: send_data_def reading_def waiting_def Let_def resend_data_def udp_send_alloc data_pkt_def byte_simps)
      (simp add: alloc_ok_def)
qed

lemma ack_reading:
  assumes E: "alloc_ok E" and st: "reading view h a p b c s"
  shows "if length c < TFTP_MAX_PAYLOAD_SIZE
    then recv E a p (ack_pkt b) s = Some (close_handle E (s\<lparr>last_pkt := timer s, retries := 0\<rparr>))
    else \<exists>t. recv E a p (ack_pkt b) s = Some t \<and> reading view h a p (b + 1) (drop TFTP_MAX_PAYLOAD_SIZE c) t
      \<and> (timers s = 1 \<longrightarrow> waiting t) \<and> sent t = sent s @ [(a, p, data_pkt (b + 1) (take TFTP_MAX_PAYLOAD_SIZE (drop TFTP_MAX_PAYLOAD_SIZE c)))]"
proof -
  let ?s = "s\<lparr>last_pkt := timer s, retries := 0\<rparr>"
  have peer: "\<not> wrong_peer s a p" using st by (simp add: reading_def wrong_peer_def)
  have r: "recv E a p (ack_pkt b) s = recv_ack E a p (ack_pkt b) ?s"
    using peer by (simp add: recv_def pkt_fields htons_inject)
  show ?thesis
  proof (cases "length c < 512")
    case True
    with st show ?thesis
      by (simp add: r recv_ack_def reading_def pkt_fields Let_def)
  next
    case False
    obtain full n where v: "view (files s) = Some (full, n)" "drop n full = drop 512 c"
      using st by (auto simp: reading_def)
    let ?t = "send_data E h (?s\<lparr>blknum := b + 1\<rparr>)"
    have "recv_ack E a p (ack_pkt b) ?s = Some ?t"
      using False st by (simp add: recv_ack_def reading_def pkt_fields Let_def)
    moreover have w: "waiting (?s\<lparr>blknum := b + 1\<rparr>) \<longleftrightarrow> timers s = 1" by (simp add: waiting_def)
    moreover have "reading view h a p (b + 1) (drop 512 c) ?t \<and> (timers s = 1 \<longrightarrow> waiting ?t)
      \<and> sent ?t = sent s @ [(a, p, data_pkt (b + 1) (take 512 (drop 512 c)))]"
      using send_data_reading[OF E, of "?s\<lparr>blknum := b + 1\<rparr>" full n] st v w by (simp add: reading_def)
    ultimately show ?thesis using False r by simp
  qed
qed

lemma acks_reading:
  assumes E: "alloc_ok E"
  shows "reading view h a p b c s \<Longrightarrow>
    \<exists>t. tftp_run E (acks a p b c) s = Some t \<and> handle t = None
      \<and> sent s @ tl (blocks_sent a p b c) = sent t"
proof (induction c arbitrary: b s rule: blocks.induct)
  case (1 c)
  show ?case
  proof (cases "length c < 512")
    case True
    then show ?thesis
      using ack_reading[OF E "1.prems"] by (simp add: acks_def blocks_sent_def blocks.simps[of c])
  next
    case False
    then obtain t where t: "recv E a p (ack_pkt b) s = Some t" "reading view h a p (b + 1) (drop 512 c) t"
      "sent t = sent s @ [(a, p, data_pkt (b + 1) (take 512 (drop 512 c)))]"
      using ack_reading[OF E "1.prems"] by auto
    obtain u where u: "tftp_run E (acks a p (b + 1) (drop 512 c)) t = Some u" "handle u = None"
      "sent t @ tl (blocks_sent a p (b + 1) (drop 512 c)) = sent u"
      using "1.IH"[OF False t(2)] by blast
    have "acks a p b c = Datagram a p (ack_pkt b) # acks a p (b + 1) (drop 512 c)"
      using False by (simp add: acks_def blocks.simps[of c])
    moreover have "tl (blocks_sent a p b c) =
        (a, p, data_pkt (b + 1) (take 512 (drop 512 c))) # tl (blocks_sent a p (b + 1) (drop 512 c))"
      using False by (simp add: blocks_sent_def blocks.simps[of c] blocks.simps[of "drop 512 c"])
    ultimately show ?thesis using t u by auto
  qed
qed

lemma data_writing:
  assumes st: "writing view h a p b c n s"
  shows "\<exists>t f. recv E a p (data_pkt b d) s = Some t \<and> oth f = oth (files s)
      \<and> view f = Some (overwrite c n d, n + length d)
      \<and> (if length d < TFTP_MAX_PAYLOAD_SIZE then idle t \<and> files t = e_close E h f
         else files t = f \<and> writing view h a p (b + 1) (overwrite c n d) (n + length d) t)"
proof -
  obtain f where f: "e_write E h d (files s) = (True, f)" "view f = Some (overwrite c n d, n + length d)"
    "oth f = oth (files s)"
    using writes[of "files s" c n d] st by (auto simp: writing_def)
  have peer: "\<not> wrong_peer s a p" using st by (simp add: writing_def wrong_peer_def)
  let ?s = "send_ack E b (s\<lparr>last_pkt := timer s, retries := 0, files := f\<rparr>)"
  have r: "recv E a p (data_pkt b d) s =
      Some (if length d < 512 then close_handle E ?s else ?s\<lparr>blknum := blknum ?s + 1\<rparr>)"
    using st f(1) by (simp add: recv_data_pkt[OF peer] recv_data_def writing_def pkt_fields Let_def)
  show ?thesis
    using st f overwrite_length[of n c d] unfolding r
    by (intro exI[of _ f] exI[of _ "if length d < 512 then close_handle E ?s else ?s\<lparr>blknum := blknum ?s + 1\<rparr>"])
      (simp add: writing_def idle_def)
qed

lemma upload_writing:
  "writing view h a p b c n s \<Longrightarrow> map fst ds = blocks new \<Longrightarrow>
    \<exists>t f. tftp_run E (upload_events a p b ds) s = Some t \<and> idle t \<and> files t = e_close E h f
      \<and> oth f = oth (files s) \<and> view f = Some (overwrite c n new, n + length new)"
proof (induction new arbitrary: b c n s ds rule: blocks.induct)
  case (1 new)
  obtain d r ds' where ds: "ds = (d, r) # ds'"
    using "1.prems"(2) by (cases ds) (auto simp: blocks.simps[of new] split: if_splits)
  obtain t f where t: "recv E a p (data_pkt b d) s = Some t" "oth f = oth (files s)"
    "view f = Some (overwrite c n d, n + length d)"
    "if length d < 512 then idle t \<and> files t = e_close E h f
     else files t = f \<and> writing view h a p (b + 1) (overwrite c n d) (n + length d) t"
    using data_writing[OF "1.prems"(1), of d] by blast
  show ?case
  proof (cases "length new < 512")
    case True
    then have d: "d = new" "ds' = []" using "1.prems"(2) ds by (simp_all add: blocks.simps[of new])
    with True t(4) have "idle t" "files t = e_close E h f" by simp_all
    then obtain u where "tftp_run E (replicate r (Datagram a p (data_pkt b d))) t = Some u" "idle u"
      "files u = e_close E h f"
      using repeats(2)[of t] by metis
    with d ds t show ?thesis by (auto simp: tftp_run_append)
  next
    case False
    then have d: "d = take 512 new" "map fst ds' = blocks (drop 512 new)"
      using "1.prems"(2) ds by (simp_all add: blocks.simps[of new])
    with False t(4) have w: "files t = f" "writing view h a p (b + 1) (overwrite c n d) (n + length d) t" by simp_all
    obtain u where u: "tftp_run E (replicate r (Datagram a p (data_pkt b d))) t = Some u"
      "writing view h a p (b + 1) (overwrite c n d) (n + length d) u" "files u = f"
      using repeats(1)[OF w(2)] w(1) by metis
    obtain v g where v: "tftp_run E (upload_events a p (b + 1) ds') u = Some v" "idle v" "files v = e_close E h g"
      "oth g = oth f" "view g = Some (overwrite (overwrite c n d) (n + length d) (drop 512 new),
        n + length d + length (drop 512 new))"
      using "1.IH"[OF False u(2) d(2)] u(3) by auto
    have "n \<le> length c" using "1.prems"(1) by (simp add: writing_def)
    then have "view g = Some (overwrite c n new, n + length new)"
      using v(5) False d(1) overwrite_append[of n c "take 512 new" "drop 512 new"] by simp
    with ds t u v show ?thesis by (auto simp: tftp_run_append)
  qed
qed

lemma ticks_reading:
  assumes E: "alloc_ok E" and st: "reading view h a p b c s" "waiting s"
  shows "n \<le> 15 \<Longrightarrow> \<exists>t. tftp_run E (replicate n Timeout) s = Some t \<and> reading view h a p b c t
    \<and> timers t = 1 \<and> last_pkt t = timer s \<and> timer t = timer s + int n \<and> retries t = n - 10
    \<and> sent t = sent s @ replicate (n - 10) (a, p, data_pkt b (take TFTP_MAX_PAYLOAD_SIZE c))"
proof (induction n)
  case 0
  then show ?case using st by (simp add: waiting_def)
next
  case (Suc n)
  then obtain t where t: "tftp_run E (replicate n Timeout) s = Some t" "reading view h a p b c t"
    "timers t = 1" "last_pkt t = timer s" "timer t = timer s + int n" "retries t = n - 10"
    "sent t = sent s @ replicate (n - 10) (a, p, data_pkt b (take 512 c))" by auto
  have run: "tftp_run E (replicate (Suc n) Timeout) s = timeout_due E t"
    unfolding replicate_Suc replicate_append_same[symmetric]
    by (cases "timeout_due E t") (simp_all add: tftp_run_append t(1))
  let ?u = "t\<lparr>timer := timer t + 1\<rparr>"
  show ?case
  proof (cases "n < 10")
    case True
    then have "timeout_due E t = Some ?u"
      using t by (simp add: timeout_due_def tftp_tmr_def reading_def Let_def)
    then show ?thesis unfolding run using True t by (simp add: reading_def)
  next
    case False
    let ?v = "?u\<lparr>allocs := allocs t + 1, sent := sent t @ [(a, p, data_pkt b (take 512 c))], retries := retries t + 1\<rparr>"
    have "timeout_due E t = Some ?v"
      using False t Suc.prems by (simp add: timeout_due_def tftp_tmr_def reading_def Let_def resend_data_def udp_send_alloc[OF E])
    moreover have "Suc n - 10 = Suc (n - 10)" using False by simp
    ultimately show ?thesis unfolding run using t
      by (simp add: reading_def replicate_append_same)
  qed
qed

lemma slow_acks_reading:
  assumes E: "alloc_ok E"
  shows "reading view h a p b c s \<Longrightarrow> waiting s \<Longrightarrow> length ns = length (blocks c) \<Longrightarrow> list_all (\<lambda>n. n \<le> 15) ns \<Longrightarrow>
    sent s = pre @ [(a, p, data_pkt b (take TFTP_MAX_PAYLOAD_SIZE c))] \<Longrightarrow>
    \<exists>t. tftp_run E (slow_acks a p b ns) s = Some t \<and> handle t = None \<and> timers t = 0
      \<and> sent t = pre @ slow_blocks a p b ns (blocks c)"
proof (induction c arbitrary: b s ns pre rule: blocks.induct)
  case (1 c)
  let ?blk = "(a, p, data_pkt b (take 512 c))"
  have "ns \<noteq> []" using "1.prems"(3) by (auto simp: blocks.simps[of c] split: if_splits)
  then obtain n ms where ns: "ns = n # ms" "n \<le> 15" "list_all (\<lambda>n. n \<le> 15) ms"
    using "1.prems"(4) by (cases ns) auto
  obtain t where t: "tftp_run E (replicate n Timeout) s = Some t" "reading view h a p b c t" "timers t = 1"
    "sent t = sent s @ replicate (n - 10) ?blk"
    using ticks_reading[OF E "1.prems"(1,2) ns(2)] by blast
  have sent: "sent t = pre @ replicate (Suc (n - 10)) ?blk"
    using t(4) "1.prems"(5) by simp
  show ?case
  proof (cases "length c < 512")
    case True
    then have "ms = []" "blocks c = [c]" using "1.prems"(3) ns(1) by (simp_all add: blocks.simps[of c])
    then show ?thesis using ack_reading[OF E t(2)] True t(1,3) sent ns(1) by (simp add: tftp_run_append)
  next
    case False
    then obtain u where u: "recv E a p (ack_pkt b) t = Some u" "reading view h a p (b + 1) (drop 512 c) u" "waiting u"
      "sent u = sent t @ [(a, p, data_pkt (b + 1) (take 512 (drop 512 c)))]"
      using ack_reading[OF E t(2)] t(3) by auto
    have "length ms = length (blocks (drop 512 c))"
      using "1.prems"(3) ns(1) False by (simp add: blocks.simps[of c])
    from "1.IH"[OF False u(2,3) this ns(3) u(4)] obtain v where
      "tftp_run E (slow_acks a p (b + 1) ms) u = Some v" "handle v = None" "timers v = 0"
      "sent v = sent t @ slow_blocks a p (b + 1) ms (blocks (drop 512 c))" by blast
    then show ?thesis using t(1) u(1) sent ns(1) False by (simp add: tftp_run_append blocks.simps[of c])
  qed
qed

end

text \<open>The provider: the callbacks of the SD card, on any FatFs that keeps its contract.\<close>

lemma sdcard_files:
  assumes ok: "fatfs_ok F vol cur"
  shows "served_files (sdcard_env F mf cp al) () (card_view vol cur name) (card_others vol name)"
proof (unfold_locales, unfold card_view_Some)
  fix d c n k
  assume "cur d = Some (name, n) \<and> vol d name = Some c"
  with fatfs_okD(3)[OF ok, of d name n c k]
  show "\<exists>f'. e_read (sdcard_env F mf cp al) () k d = (Some (take k (drop n c)), f')
      \<and> cur f' = Some (name, n + length (take k (drop n c))) \<and> vol f' name = Some c"
    by (auto simp: sdcard_env_def tftp_sdcard_read_def)
next
  fix d c n b
  assume "cur d = Some (name, n) \<and> vol d name = Some c" "n \<le> length c"
  then obtain d' where "tftp_sdcard_write F [b] d = (True, d')" "cur d' = Some (name, n + length b)"
    "vol d' = (vol d)(name \<mapsto> overwrite c n b)"
    using sdcard_write_chain[OF ok, of d name n c "[b]"] by auto
  then show "\<exists>f'. e_write (sdcard_env F mf cp al) () b d = (True, f')
      \<and> (cur f' = Some (name, n + length b) \<and> vol f' name = Some (overwrite c n b))
      \<and> card_others vol name f' = card_others vol name d"
    by (auto simp: sdcard_env_def card_others_def simp del: tftp_sdcard_write.simps)
qed

interpretation card: served_files "sdcard_env card_fs mf cp al" "()" "card_view fst snd name" "card_others fst name"
  for mf cp al name
  by (rule sdcard_files[OF card_fs_ok])

section \<open>Requests\<close>

text \<open>A read or write request of a file name that fits, in the only mode the handler knows.\<close>

definition octet_request :: "u16 \<Rightarrow> u8 list \<Rightarrow> u8 list" where
  "octet_request opcode name = request opcode name (ascii ''octet'')"

definition name_ok :: "u8 list \<Rightarrow> bool" where
  "name_ok name \<longleftrightarrow> 0 \<notin> set name \<and> length name \<le> TFTP_MAX_FILENAME_LEN"

lemma octet_0: "0 \<notin> set (ascii ''octet'')"
  by (simp add: ascii_def of_char_def)

lemma octet_request_strings:
  assumes "pbufs_ok E" "name_ok name"
  shows "request_strings E (octet_request opcode name) = Inr (name @ [0], ascii ''octet'' @ [0])"
  using request_strings_found[OF assms(1) _ octet_0, of name "be16 opcode" "[]"] assms(2)
  by (simp add: octet_request_def request_def name_ok_def)

lemma recv_octet_request:
  assumes "pbufs_ok E" "name_ok name" "idle s" "w = TFTP_RRQ \<or> w = TFTP_WRQ"
  shows "recv E a p (octet_request w name) s =
    Some (case e_open E name (ascii ''octet'') (w = TFTP_WRQ) (files s) of
      (None, f) \<Rightarrow> send_error E a p FILE_NOT_FOUND ''Unable to open requested file.''
        (s\<lparr>last_pkt := timer s, retries := 0, timers := timers s + 1, blknum := 1, files := f\<rparr>)
    | (Some h, f) \<Rightarrow>
       (let s2 = s\<lparr>last_pkt := timer s, retries := 0, timers := timers s + 1, blknum := 1, files := f,
                   handle := Some h, addr := a, port := p, mode_write := (w = TFTP_WRQ)\<rparr>
        in if w = TFTP_WRQ then send_ack E 0 s2 else send_data E h s2))"
proof -
  have "\<not> wrong_peer s a p" using assms(3) by (simp add: idle_def wrong_peer_def)
  moreover have "ld16 (octet_request w name) 0 = Some (htons w)"
    by (simp add: octet_request_def request_def ld16_be16)
  moreover have "c_string (name @ [0]) = name" "c_string (ascii ''octet'' @ [0]) = ascii ''octet''"
    using assms(2) octet_0 by (simp_all add: c_string_append0 name_ok_def)
  ultimately show ?thesis
    using assms by (auto simp: recv_def recv_request_def octet_request_strings htons_inject Let_def idle_def
        split: prod.split option.split)
qed

section \<open>Transfers with the card\<close>

lemma download_starts:
  assumes F: "fatfs_ok F vol cur" and E: "E = sdcard_env F mf cp al" "alloc_ok E" "pbufs_ok E"
    and st: "name_ok name" "idle s" "vol (files s) name = Some c"
  obtains t where "recv E a p (octet_request TFTP_RRQ name) s = Some t" "reading (card_view vol cur name) () a p 1 c t"
    "sent t = sent s @ [(a, p, data_pkt 1 (take TFTP_MAX_PAYLOAD_SIZE c))]" "timers s = 0 \<longrightarrow> waiting t"
proof -
  note cb = sdcard_files[OF F, of mf cp al name, folded E(1)]
  obtain d where d: "f_open F name [FA_OPEN_EXISTING, FA_READ] (files s) = (FR_OK, d)"
    "cur d = Some (name, 0)" "vol d = vol (files s)"
    using fatfs_okD(2)[OF F st(3)] by blast
  define s2 where "s2 = s\<lparr>last_pkt := timer s, retries := 0, timers := timers s + 1, blknum := 1, files := d,
    handle := Some (), addr := a, port := p, mode_write := False\<rparr>"
  have "e_open E name (ascii ''octet'') False (files s) = (Some (), d)"
    using d(1) by (simp add: E(1) sdcard_env_def tftp_sdcard_open_def)
  then have r: "recv E a p (octet_request TFTP_RRQ name) s = Some (send_data E () s2)"
    by (simp add: recv_octet_request[OF E(3) st(1,2)] s2_def)
  have v: "card_view vol cur name (files s2) = Some (c, 0)"
    using d st(3) by (simp add: card_view_Some s2_def)
  have w: "timers s = 0 \<longrightarrow> waiting s2" by (simp add: waiting_def s2_def)
  have f: "handle s2 = Some ()" "\<not> mode_write s2" "addr s2 = a" "port s2 = p" "blknum s2 = 1" "sent s2 = sent s"
    by (simp_all add: s2_def)
  from served_files.send_data_reading[OF cb E(2) f(1,2) v]
  show ?thesis by (intro that[OF r]) (simp_all add: f w)
qed

lemma download_run:
  assumes F: "fatfs_ok F vol cur" and E: "E = sdcard_env F mf cp al" "alloc_ok E" "pbufs_ok E"
    and st: "name_ok name" "idle s" "vol (files s) name = Some c"
  shows "\<exists>t. tftp_run E (Datagram a p (octet_request TFTP_RRQ name) # acks a p 1 c) s = Some t
    \<and> handle t = None \<and> sent t = sent s @ blocks_sent a p 1 c"
proof -
  note cb = sdcard_files[OF F, of mf cp al name, folded E(1)]
  obtain u where u: "recv E a p (octet_request TFTP_RRQ name) s = Some u" "reading (card_view vol cur name) () a p 1 c u"
    "sent u = sent s @ [(a, p, data_pkt 1 (take 512 c))]"
    by (rule download_starts[OF assms, of a p])
  have "blocks_sent a p 1 c = (a, p, data_pkt 1 (take 512 c)) # tl (blocks_sent a p 1 c)"
    by (simp add: blocks_sent_def blocks.simps[of c])
  with served_files.acks_reading[OF cb E(2) u(2)] u show ?thesis by auto
qed

lemma slow_download_run:
  assumes F: "fatfs_ok F vol cur" and E: "E = sdcard_env F mf cp al" "alloc_ok E" "pbufs_ok E"
    and st: "name_ok name" "idle s" "vol (files s) name = Some c"
    and "timers s = 0" "length ns = length (blocks c)" "list_all (\<lambda>n. n \<le> 15) ns"
  shows "\<exists>t. tftp_run E (Datagram a p (octet_request TFTP_RRQ name) # slow_acks a p 1 ns) s = Some t
    \<and> handle t = None \<and> timers t = 0 \<and> sent t = sent s @ slow_blocks a p 1 ns (blocks c)"
proof -
  note cb = sdcard_files[OF F, of mf cp al name, folded E(1)]
  obtain u where u: "recv E a p (octet_request TFTP_RRQ name) s = Some u" "reading (card_view vol cur name) () a p 1 c u"
    "sent u = sent s @ [(a, p, data_pkt 1 (take 512 c))]" "timers s = 0 \<longrightarrow> waiting u"
    by (rule download_starts[OF assms(1-7), of a p])
  from served_files.slow_acks_reading[OF cb E(2) u(2) u(4)[rule_format, OF assms(8)] assms(9,10) u(3)] u(1) show ?thesis by auto
qed

lemma upload_run:
  assumes F: "fatfs_ok F vol cur" and E: "E = sdcard_env F mf cp al" "pbufs_ok E"
    and st: "name_ok name" "idle s" "map fst ds = blocks new"
  shows "\<exists>t. tftp_run E (Datagram a p (octet_request TFTP_WRQ name) # upload_events a p 1 ds) s = Some t
    \<and> idle t \<and> vol (files t) = (vol (files s))(name \<mapsto>
        new @ drop (length new) (case vol (files s) name of None \<Rightarrow> [] | Some old \<Rightarrow> old))"
proof -
  note cb = sdcard_files[OF F, of mf cp al name, folded E(1)]
  let ?old = "case vol (files s) name of None \<Rightarrow> [] | Some old \<Rightarrow> old"
  obtain d where d: "f_open F name [FA_OPEN_ALWAYS, FA_WRITE] (files s) = (FR_OK, d)"
    "cur d = Some (name, 0)" "vol d = (vol (files s))(name \<mapsto> ?old)"
    using fatfs_okD(1)[OF F, of name "files s"] by blast
  define s2 where "s2 = s\<lparr>last_pkt := timer s, retries := 0, timers := timers s + 1, blknum := 1, files := d,
    handle := Some (), addr := a, port := p, mode_write := True\<rparr>"
  have "e_open E name (ascii ''octet'') True (files s) = (Some (), d)"
    using d(1) by (simp add: E(1) sdcard_env_def tftp_sdcard_open_def)
  then have r: "recv E a p (octet_request TFTP_WRQ name) s = Some (send_ack E 0 s2)"
    by (simp add: recv_octet_request[OF E(2) st(1,2)] s2_def)
  have "writing (card_view vol cur name) () a p 1 ?old 0 (send_ack E 0 s2)"
    using d by (simp add: writing_def card_view_Some s2_def)
  from served_files.upload_writing[OF cb this st(3)] obtain t f where t:
    "tftp_run E (upload_events a p 1 ds) (send_ack E 0 s2) = Some t" "idle t" "files t = e_close E () f"
    "card_others vol name f = card_others vol name d"
    "card_view vol cur name f = Some (overwrite ?old 0 new, length new)"
    by (auto simp: s2_def)
  have "vol (files t) = vol f"
    using fatfs_okD(5)[OF F] t(3) by (simp add: E(1) sdcard_env_def tftp_sdcard_close_def)
  moreover have "vol f = (vol (files s))(name \<mapsto> new @ drop (length new) ?old)"
    using t(4,5) d(3) by (auto simp: card_others_def card_view_Some overwrite_def fun_eq_iff split: if_splits)
  ultimately show ?thesis using r t(1,2) by auto
qed

text \<open>A card with one file, for the witnesses.\<close>

definition card_env :: "(card, unit) tftp_env" where
  "card_env = sdcard_env card_fs scan_memfind (\<lambda>p len off. take len (drop off p)) (\<lambda>_ _. True)"

definition card_start :: "(card, unit) tftp" where
  "card_start = tftp_init ([[65] \<mapsto> [1, 2, 3]], None)"

lemma card_env_ok: "alloc_ok card_env" "pbufs_ok card_env"
  by (simp_all add: alloc_ok_def pbufs_ok_def card_env_def sdcard_env_def scan_memfind_def takeWhile_all takeWhile_upto)

lemma card_start_simps: "idle card_start" "fst (files card_start) = [[65] \<mapsto> [1, 2, 3]]"
  "sent card_start = []" "timers card_start = 0"
  by (simp_all add: idle_def card_start_def tftp_init_def)

lemma short_blocks: "length c < TFTP_MAX_PAYLOAD_SIZE \<Longrightarrow> blocks c = [c]"
  by (simp add: blocks.simps[of c])

section \<open>Properties\<close>

text \<open>
  Property C15 (functional): a peer that requests a file on the card gets every block in order, numbered
  from 1 (modulo 65536), full blocks and then a shorter one, which put together are the file, even when
  blocks or acknowledgements are lost: up to 15 periods may pass before the acknowledgement of a block,
  and from the eleventh on each of them sends that block once more. Then the server is free again, with no timeout left.
\<close>

theorem download_survives_losses:
  assumes "fatfs_ok F vol cur" "E = sdcard_env F mf cp al" "alloc_ok E" "pbufs_ok E"
    and "name_ok name" "idle s" "vol (files s) name = Some c"
    and "timers s = 0" "length ns = length (blocks c)" "list_all (\<lambda>n. n \<le> 15) ns"
  shows "\<exists>t. tftp_run E (Datagram a p (octet_request TFTP_RRQ name) # slow_acks a p 1 ns) s = Some t
    \<and> handle t = None \<and> timers t = 0 \<and> sent t = sent s @ slow_blocks a p 1 ns (blocks c) \<and> concat (blocks c) = c"
  using slow_download_run[OF assms, of a p] by (simp add: concat_blocks)

theorem download_survives_losses_witness:
  "\<exists>t. tftp_run card_env (Datagram 7 9 (octet_request TFTP_RRQ [65]) # replicate 12 Timeout @ [Datagram 7 9 (ack_pkt 1)]) card_start = Some t
    \<and> handle t = None \<and> sent t = replicate 3 (7, 9, be16 TFTP_DATA @ be16 1 @ [1, 2, 3])"
  using download_survives_losses[OF card_fs_ok card_env_def card_env_ok, of "[65]" card_start "[1, 2, 3]" "[12]" 7 9]
  by (simp add: card_start_simps name_ok_def short_blocks data_pkt_def) blast

text \<open>Without losses each block is sent exactly once; a timeout left from before does not matter then.\<close>

lemma download_delivers_file:
  assumes "fatfs_ok F vol cur" "E = sdcard_env F mf cp al" "alloc_ok E" "pbufs_ok E"
    and "name_ok name" "idle s" "vol (files s) name = Some c"
  shows "\<exists>t. tftp_run E (Datagram a p (octet_request TFTP_RRQ name) # acks a p 1 c) s = Some t
    \<and> handle t = None
    \<and> sent t = sent s @ map (\<lambda>(b, d). (a, p, be16 TFTP_DATA @ be16 b @ d)) (numbered 1 (blocks c))
    \<and> concat (blocks c) = c"
  using download_run[OF assms, of a p] by (simp add: concat_blocks blocks_sent_def data_pkt_def)

text \<open>
  Property C14 (functional): an upload writes each block once and in order, however often the peer
  repeats one, answers the first block after the last one with an error only, and frees the server.
  The file is not truncated: what it held beyond the length of the new content stays in it. No other
  file changes.
\<close>

theorem upload_stores_file:
  assumes "fatfs_ok F vol cur" "E = sdcard_env F mf cp al" "pbufs_ok E"
    and "name_ok name" "idle s" "map fst ds = blocks new"
  shows "\<exists>t. tftp_run E (Datagram a p (octet_request TFTP_WRQ name) # upload_events a p 1 ds) s = Some t
    \<and> handle t = None \<and> vol (files t) = (vol (files s))(name \<mapsto>
        new @ drop (length new) (case vol (files s) name of None \<Rightarrow> [] | Some old \<Rightarrow> old))"
  using upload_run[OF assms, of a p] by (auto simp: idle_def)

theorem upload_stores_file_witness:
  "\<exists>t. tftp_run card_env [Datagram 7 9 (octet_request TFTP_WRQ [65]), Datagram 7 9 (data_pkt 1 [9]),
        Datagram 7 9 (data_pkt 1 [9])] card_start = Some t
    \<and> handle t = None \<and> fst (files t) [65] = Some [9, 2, 3]"
proof -
  have "\<exists>t. tftp_run card_env (Datagram 7 9 (octet_request TFTP_WRQ [65]) # upload_events 7 9 1 [([9], 1)]) card_start = Some t
    \<and> handle t = None \<and> fst (files t) = (fst (files card_start))([65] \<mapsto>
        [9] @ drop (length [9 :: u8]) (case fst (files card_start) [65] of None \<Rightarrow> [] | Some old \<Rightarrow> old))"
    by (rule upload_stores_file[OF card_fs_ok card_env_def card_env_ok(2)])
      (simp_all add: card_start_simps name_ok_def short_blocks)
  then show ?thesis by (auto simp: card_start_simps)
qed

text \<open>
  A request the server refuses leaves its timeout pending. The next transfer then
  runs with two: \<open>tftp_tmr\<close> counts twice in each period, and the transfer times out in half the time.
\<close>

theorem refused_request_doubles_timer:
  assumes "fatfs_ok F vol cur" "E = sdcard_env F mf cp al" "pbufs_ok E"
    and "name_ok missing" "vol (files s) missing = None" "name_ok name" "idle s" "timers s = 0"
  shows "\<exists>t. tftp_run E [Datagram a p (octet_request TFTP_RRQ missing), Datagram a p (octet_request TFTP_WRQ name)] s
    = Some t \<and> handle t \<noteq> None \<and> timers t = 2"
proof -
  obtain res d where o: "f_open F missing [FA_OPEN_EXISTING, FA_READ] (files s) = (res, d)" by fastforce
  then have "res \<noteq> FR_OK" using assms(1,5) unfolding fatfs_ok_def by (metis fst_conv)
  then have "e_open E missing (ascii ''octet'') False (files s) = (None, d)"
    using o by (simp add: assms(2) sdcard_env_def tftp_sdcard_open_def)
  then obtain u where u: "recv E a p (octet_request TFTP_RRQ missing) s = Some u" "idle u" "timers u = 1"
    using assms(7,8) by (simp add: recv_octet_request[OF assms(3,4,7)] idle_def)
  obtain d' where "f_open F name [FA_OPEN_ALWAYS, FA_WRITE] (files u) = (FR_OK, d')"
    using fatfs_okD(1)[OF assms(1)] by blast
  then have "e_open E name (ascii ''octet'') True (files u) = (Some (), d')"
    by (simp add: assms(2) sdcard_env_def tftp_sdcard_open_def)
  then show ?thesis
    using u by (simp add: recv_octet_request[OF assms(3,6) u(2)])
qed

theorem refused_request_doubles_timer_witness:
  "\<exists>t. tftp_run card_env [Datagram 7 9 (octet_request TFTP_RRQ [66]), Datagram 7 9 (octet_request TFTP_WRQ [65])] card_start
    = Some t \<and> handle t \<noteq> None \<and> timers t = 2"
  by (rule refused_request_doubles_timer[OF card_fs_ok card_env_def card_env_ok(2)])
    (simp_all add: card_start_simps name_ok_def)

end
