(* ===== verification/Remote_Config.thy ===== *)
theory Remote_Config imports Network Tftp_Transfer begin

text \<open>
  The network configuration from afar: \<^verbatim>\<open>NET.CNF\<close> is uploaded to the TFTP server of the running firmware
  and read by \<open>realmain\<close> at its next start. The two share the card and nothing else.
\<close>

section \<open>The lines of a file\<close>

text \<open>\<open>f_gets\<close> with a buffer of \<open>n\<close> bytes: up to the end of the line, its newline included, or the buffer.\<close>

definition file_line :: "nat \<Rightarrow> u8 list \<Rightarrow> u8 list" where
  "file_line n c = take (n - 1) (take (Suc (length (takeWhile (\<lambda>b. b \<noteq> 10) c))) c)"

lemma file_line_prefix: "file_line n c @ drop (length (file_line n c)) c = c"
  by (simp add: file_line_def take_take min_def)

lemma file_line_length: "length (file_line n c) \<le> length c"
  by (simp add: file_line_def)

lemma file_line_Nil: "2 \<le> n \<Longrightarrow> file_line n c = [] \<longleftrightarrow> c = []"
  by (auto simp: file_line_def)

function file_lines :: "u8 list \<Rightarrow> u8 list list" where
  "file_lines c = (if c = [] then [] else file_line 64 c # file_lines (drop (length (file_line 64 c)) c))"
  by pat_completeness auto
termination by (relation "measure length") (auto simp: file_line_Nil)

declare file_lines.simps [simp del]

lemma file_lines_Nil [simp]: "file_lines [] = []"
  by (simp add: file_lines.simps)

lemma concat_file_lines: "concat (file_lines c) = c"
proof (induction c rule: file_lines.induct)
  case (1 c)
  then show ?case by (cases "c = []") (simp_all add: file_lines.simps[of c] file_line_prefix)
qed

lemma file_lines_bytes:
  assumes "l \<in> set (file_lines c)"
  shows "set l \<subseteq> set c"
proof -
  have "set l \<subseteq> set (concat (file_lines c))" using assms by auto
  then show ?thesis by (simp only: concat_file_lines)
qed

lemma length_file_lines: "length (file_lines c) \<le> length c"
proof (induction c rule: file_lines.induct)
  case (1 c)
  let ?l = "file_line 64 c"
  show ?case
  proof (cases "c = []")
    case False
    then have "?l \<noteq> []" by (simp add: file_line_Nil)
    then have "0 < length ?l" by (rule length_greater_0_conv[THEN iffD2])
    moreover have "length (file_lines c) = Suc (length (file_lines (drop (length ?l) c)))"
      using False by (simp add: file_lines.simps[of c])
    moreover have "length (drop (length ?l) c) = length c - length ?l" by simp
    ultimately show ?thesis using 1[OF False] file_line_length[of 64 c] by linarith
  qed simp
qed

section \<open>The card over a restart\<close>

text \<open>
  What the start relies on FatFs for beyond \<open>sd_ok\<close>: the first partition can be mounted, and mounting
  leaves the files alone; \<open>f_gets\<close> reads the lines of the open file. A restart forgets everything but the
  files, so the state it finds is any state with the same files.
\<close>

definition mount_ok :: "'d sd_fatfs \<Rightarrow> ('d \<Rightarrow> u8 list \<rightharpoonup> u8 list) \<Rightarrow> bool" where
  "mount_ok F vol \<longleftrightarrow> (\<forall>d. \<exists>d1 d2. f_mount F (ascii ''0:/'') d = (FR_OK, d1) \<and> f_chdir F (ascii ''0:/'') d1 = (FR_OK, d2)
     \<and> vol d2 = vol d)"

definition gets_ok :: "'d sd_fatfs \<Rightarrow> ('d \<Rightarrow> u8 list \<rightharpoonup> u8 list) \<Rightarrow> ('d \<Rightarrow> (u8 list \<times> nat) option) \<Rightarrow> bool" where
  "gets_ok F vol cur \<longleftrightarrow> (\<forall>d p k c n. cur d = Some (p, k) \<longrightarrow> vol d p = Some c \<longrightarrow>
     (\<exists>d'. f_gets F n d = (if file_line n (drop k c) = [] then None else Some (file_line n (drop k c)), d')
        \<and> vol d' = vol d \<and> cur d' = Some (p, k + length (file_line n (drop k c)))))"

lemma gives_file_lines:
  assumes "gets_ok F vol cur"
  shows "cur d = Some (p, k) \<Longrightarrow> vol d p = Some c \<Longrightarrow> \<exists>e. gives_lines F d (file_lines (drop k c)) e"
proof (induction "drop k c" arbitrary: d k rule: file_lines.induct)
  case 1
  let ?l = "file_line 64 (drop k c)"
  obtain d' where d': "f_gets F 64 d = (if ?l = [] then None else Some ?l, d')" "vol d' = vol d"
    "cur d' = Some (p, k + length ?l)"
    using assms 1(2,3) unfolding gets_ok_def by blast
  show ?case
  proof (cases "drop k c = []")
    case True
    then have "gives_lines F d [] d'" using d'(1) by (simp add: file_line_Nil)
    then show ?thesis using True by auto
  next
    case False
    have rest: "drop (length ?l) (drop k c) = drop (k + length ?l) c" by (simp add: add.commute)
    have "vol d' p = Some c" using d'(2) 1(3) by simp
    from 1(1)[OF False rest d'(3) this] obtain e where "gives_lines F d' (file_lines (drop (k + length ?l) c)) e" ..
    then have "gives_lines F d (?l # file_lines (drop (k + length ?l) c)) e"
      using d'(1) False by (simp add: file_line_Nil)
    then show ?thesis unfolding file_lines.simps[of "drop k c"] rest if_not_P[OF False] by blast
  qed
qed

lemma realmain_applies_file:
  assumes "sd_ok F vol cur" "mount_ok F vol" "gets_ok F vol cur" "mac_eeprom (env w) mac"
    and "vol d (ascii ''NET.CNF'') = Some c" "0 \<notin> set c" "length c < fuel"
  shows "\<exists>d'. fst (run_state (realmain fuel F inet_aton lbuf ee1 ee2 add_ok dhcp_ok d) w)
    = Some (net_setup add_ok dhcp_ok (foldl (\<lambda>cf l. line_effect inet_aton mac l cf) net_config0 (file_lines c)), d')"
proof -
  obtain d1 d2 where m: "f_mount F (ascii ''0:/'') d = (FR_OK, d1)" "f_chdir F (ascii ''0:/'') d1 = (FR_OK, d2)" "vol d2 = vol d"
    using assms(2) unfolding mount_ok_def by blast
  have v2: "vol d2 (ascii ''NET.CNF'') = Some c" using m(3) assms(5) by simp
  obtain d3 where o: "f_open F (ascii ''NET.CNF'') [FA_OPEN_EXISTING, FA_READ] d2 = (FR_OK, d3)"
    "cur d3 = Some (ascii ''NET.CNF'', 0)" "vol d3 = vol d2"
    using sd_file_ops(1)[OF assms(1), OF v2] by (elim exE conjE) (rule that)
  have v3: "vol d3 (ascii ''NET.CNF'') = Some c" using o(3) v2 by simp
  obtain e where e: "gives_lines F d3 (file_lines c) e"
    using gives_file_lines[OF assms(3), OF o(2), OF v3] unfolding drop_0 by (elim exE) (rule that)
  have no0: "\<forall>s \<in> set (file_lines c). 0 \<notin> set s"
    using assms(6) file_lines_bytes by blast
  have "length (file_lines c) < fuel" using length_file_lines[of c] assms(7) by simp
  from netconf_reaches_interface[where inet_aton = inet_aton and lbuf = lbuf and ?ee1.0 = ee1 and ?ee2.0 = ee2
      and add_ok = add_ok and dhcp_ok = dhcp_ok, OF assms(4), OF m(1,2), OF o(1), OF e no0 this refl] show ?thesis
    by (elim exE conjE) (rule exI)
qed

section \<open>Upload and restart\<close>

text \<open>
  Property C35 (functional): an upload of NET.CNF over TFTP, however often the peer repeats a block, is what
  the next start sets the interface up from, line by line from a configuration of zeros; but a longer file
  that was there before leaves its end, whose lines then count too.
\<close>

theorem uploaded_configuration_applies:
  assumes "sd_ok F vol cur" "mount_ok F vol" "gets_ok F vol cur" "mac_eeprom (env w) mac"
    and "E = sdcard_env (fatfs.truncate F) mf cp al" "pbufs_ok E" "idle s" "map fst ds = blocks new"
    and c: "c = new @ drop (length new) (case vol (files s) (ascii ''NET.CNF'') of None \<Rightarrow> [] | Some old \<Rightarrow> old)"
    and "0 \<notin> set c" "length c < fuel"
  shows "\<exists>t. tftp_run E (Datagram a p (octet_request TFTP_WRQ (ascii ''NET.CNF'')) # upload_events a p 1 ds) s = Some t
    \<and> (\<forall>d. vol d = vol (files t) \<longrightarrow>
        (\<exists>d'. fst (run_state (realmain fuel F inet_aton lbuf ee1 ee2 add_ok dhcp_ok d) w)
          = Some (net_setup add_ok dhcp_ok (foldl (\<lambda>cf l. line_effect inet_aton mac l cf) net_config0 (file_lines c)), d')))"
proof -
  have name: "name_ok (ascii ''NET.CNF'')" unfolding name_ok_def by code_simp
  obtain t where t: "tftp_run E (Datagram a p (octet_request TFTP_WRQ (ascii ''NET.CNF'')) # upload_events a p 1 ds) s = Some t"
    "vol (files t) = (vol (files s))(ascii ''NET.CNF'' \<mapsto> c)"
    using upload_run[OF sd_okD(1)[OF assms(1)], OF assms(5,6), OF name, OF assms(7,8), of a p, folded c]
    by (elim exE conjE) (rule that)
  have "vol d (ascii ''NET.CNF'') = Some c" if "vol d = vol (files t)" for d
    using that t(2) by simp
  then show ?thesis
    using t(1) realmain_applies_file[OF assms(1-4) _ assms(10,11)] by (intro exI[of _ t]) simp
qed

text \<open>A file of four bytes is replaced by two lines, sent twice; the next start applies both.\<close>

definition two_lines :: "u8 list" where
  "two_lines = ascii ''addr 10.0.0.5'' @ [10] @ ascii ''hwaddr''"

definition running :: "(card, unit) tftp" where
  "running = tftp_init ([ascii ''NET.CNF'' \<mapsto> ascii ''dhcp''], None)"

lemma sd_card_restarts: "mount_ok sd_card fst" "gets_ok sd_card fst snd"
  by (auto simp: mount_ok_def gets_ok_def sd_card_def fatfs.extend_def card_gets_def file_line_def Let_def)

theorem uploaded_configuration_applies_witness:
  "\<exists>t. tftp_run card_env (Datagram 7 9 (octet_request TFTP_WRQ (ascii ''NET.CNF'')) # upload_events 7 9 1 [(two_lines, 1)]) running = Some t
    \<and> (\<forall>d. fst d = fst (files t) \<longrightarrow>
        (\<exists>d'. fst (run_state (realmain 30 sd_card conf_aton (replicate 64 0) [] [] True True d) (start_world conf_hw))
          = Some ([Lwip_Init, Xemac_Add 0x0500000A 0 0 [2, 0, 0, 1, 2, 3], Netif_Set_Default, Netif_Set_Up, Start_NIC], d')))"
proof -
  have mac: "mac_eeprom (env (start_world conf_hw)) [2, 0, 0, 1, 2, 3]"
    by (simp add: mac_eeprom_def conf_hw_def fit_def)
  have env: "card_env = sdcard_env (fatfs.truncate sd_card) scan_memfind (\<lambda>p len off. take len (drop off p)) (\<lambda>_ _. True)"
    by (simp add: card_env_def sd_card_def card_fs_def fatfs.truncate_def fatfs.extend_def)
  have lines: "file_lines two_lines = [ascii ''addr 10.0.0.5'' @ [10], ascii ''hwaddr'']"
    and no0: "0 \<notin> set two_lines" and len: "length two_lines < 30" "map fst [(two_lines, 1 :: nat)] = blocks two_lines"
    by code_simp+
  have old: "two_lines = two_lines @ drop (length two_lines) (case fst (files running) (ascii ''NET.CNF'') of None \<Rightarrow> [] | Some old \<Rightarrow> old)"
    by (simp add: running_def tftp_init_def) code_simp
  have "idle running" by (simp add: idle_def running_def tftp_init_def)
  from uploaded_configuration_applies[where inet_aton = conf_aton and lbuf = "replicate 64 0" and ?ee1.0 = "[]" and ?ee2.0 = "[]"
      and add_ok = True and dhcp_ok = True, OF sd_card_ok, OF sd_card_restarts, OF mac, OF env, OF card_env_ok(2), OF this,
      OF len(2), OF old no0 len(1), of 7 9]
  show ?thesis unfolding lines by (simp add: conf_lines_effect net_config0_def net_setup_def)
qed

end
