(* ===== verification/Device_Init.thy ===== *)
theory Device_Init imports Control C_Float begin

text \<open>
  The chips set up over PL registers: the clock chip (\<^verbatim>\<open>ad9510.c\<close>), the ADC (\<^verbatim>\<open>ltc2195_init.c\<close>) and the
  three thermistor converters (\<^verbatim>\<open>ltc2986.c\<close>).
\<close>

section \<open>AD9510\<close>

text \<open>Each word is a register number and its value; the last one makes the others take effect.\<close>

definition ad9510_words :: "u32 list" where
  "ad9510_words = [0x0010, 0x5800, 0x4500, 0x3c08, 0x4b80, 0x3d08, 0x4980, 0x3e08, 0x4d80, 0x3f08,
     0x4f80, 0x4002, 0x5180, 0x4102, 0x5380, 0x4202, 0x5580, 0x3800, 0x391b, 0x3a0a, 0x4302, 0x5780,
     0x0400, 0x0501, 0x0636, 0x0877, 0x0930, 0x0a02, 0x0b00, 0x0c01, 0x0d00, 0x5a01]"

definition prog_ad9510 :: "unit io" where
  "prog_ad9510 = for_each ad9510_words (\<lambda>v. do { Xil_Out32 (PL AD9510_REG) v; usleep 5000 })"

section \<open>LTC2195\<close>

definition spi_word :: "u32 \<Rightarrow> u32 \<Rightarrow> u32" where
  "spi_word regAddr regVal = push_bit 8 regAddr OR regVal"

definition ltc2195_init :: "unit io" where
  "ltc2195_init = do {
     Xil_Out32 (PL ADC_SPI_REG) (spi_word 1 0x20);
     usleep 1000;
     Xil_Out32 (PL ADC_SPI_REG) (0x8000 OR spi_word 1 0x20);
     usleep 1000;
     Xil_In32 (PL ADC_SPI_REG);
     usleep 1000;
     Xil_Out32 (PL ADC_SPI_REG) (0x10000 OR 0x8000 OR spi_word 1 0x20);
     usleep 1000;
     Xil_In32 (PL ADC_SPI_REG);
     Xil_Out32 (PL ADC_SPI_REG) (spi_word 3 0x01);
     usleep 1000;
     Xil_Out32 (PL ADC_SPI_REG) (0x8000 OR spi_word 3 0x01);
     usleep 1000;
     Xil_In32 (PL ADC_SPI_REG);
     Xil_Out32 (PL ADC_SPI_REG) (spi_word 4 0x00);
     usleep 1000;
     Xil_Out32 (PL ADC_SPI_REG) (0x8000 OR spi_word 4 0x00);
     usleep 1000;
     Xil_In32 (PL ADC_SPI_REG);
     usleep 1000;
     Xil_Out32 (PL ADC_SPI_REG) (0x10000 OR 0x8000 OR spi_word 4 0x00);
     usleep 1000;
     Xil_In32 (PL ADC_SPI_REG);
     Xil_Out32 (PL ADC_SPI_REG) (spi_word 2 1);
     usleep 1000;
     Xil_Out32 (PL ADC_IDLYWVAL_REG) 300;
     Xil_Out32 (PL ADC_IDLYSTR_REG) 0xFFFF;
     Xil_Out32 (PL ADC_IDLYSTR_REG) 0;
     for_each [0..<20] (\<lambda>i. do {
       Xil_In16 (PL ADC_RAWCHA_REG);
       Xil_In16 (PL ADC_RAWCHB_REG);
       Xil_In16 (PL ADC_RAWCHC_REG);
       Xil_In16 (PL ADC_RAWCHD_REG);
       usleep 100000
     })
   }"

section \<open>LTC2986\<close>

definition therm_setup_words :: "u32 list" where
  "therm_setup_words = [0x020204e8, 0x0202059c, 0x02020640, 0x02020700,
     0x02020cb0, 0x02020d8c, 0x02020e00, 0x02020f00,
     0x020214b0, 0x0202158c, 0x02021600, 0x02021700]"

definition setup_thermistors :: "u8 \<Rightarrow> unit io" where
  "setup_thermistors chipnum = do {
     Xil_Out32 (PL THERM_SEL_REG) (ucast chipnum);
     usleep 1000;
     for_each therm_setup_words (\<lambda>v. do { Xil_Out32 (PL THERM_SPI_REG) v; usleep 1000 })
   }"

text \<open>One byte of a result, as a C \<open>int\<close>.\<close>

definition therm_byte :: "u32 \<Rightarrow> int io" where
  "therm_byte cmd = do {
     Xil_Out32 (PL THERM_SPI_REG) cmd;
     usleep 1000;
     v \<leftarrow> Xil_In32 (PL THERM_SPI_REG);
     ret (sint v)
   }"

text \<open>Start a conversion, wait for it and read the three bytes of the result, the lowest first. The
  register returns a byte (\<^verbatim>\<open>ps_io.vhd\<close>), so the sum stays within an \<open>int\<close>.\<close>

definition therm_channel :: "u32 \<Rightarrow> u32 \<Rightarrow> u32 \<Rightarrow> u32 \<Rightarrow> rat io" where
  "therm_channel start r1 r2 r3 = do {
     Xil_Out32 (PL THERM_SPI_REG) start;
     vTaskDelay 170;
     dat1 \<leftarrow> therm_byte r1;
     dat2 \<leftarrow> therm_byte r2;
     dat3 \<leftarrow> therm_byte r3;
     ret (f32 (f32 (of_int (dat1 + dat2 * 256 + dat3 * 65536)) / 1024))
   }"

definition read_thermistors :: "u8 \<Rightarrow> (rat \<times> rat) io" where
  "read_thermistors chipnum = do {
     Xil_Out32 (PL THERM_SEL_REG) (ucast chipnum);
     usleep 1000;
     temp1 \<leftarrow> therm_channel 0x02000084 0x03001f00 0x03001e00 0x03001d00;
     temp2 \<leftarrow> therm_channel 0x02000086 0x03002700 0x03002600 0x03002500;
     ret (temp1, temp2)
   }"

section \<open>What the sequences write\<close>

lemma prog_ad9510_writes: "fixed_writes prog_ad9510 (map (\<lambda>v. (PL AD9510_REG, v)) ad9510_words)"
proof -
  have "fixed_writes (do { Xil_Out32 (PL AD9510_REG) v; usleep 5000 }) [(PL AD9510_REG, v)]" for v
    by (simp add: fixed_writes_def io_simps)
  then have "fixed_writes prog_ad9510 (concat (map (\<lambda>v. [(PL AD9510_REG, v)]) ad9510_words))"
    unfolding prog_ad9510_def by (rule fixed_for_each)
  then show ?thesis by (simp add: map_concat concat_map_singleton)
qed

definition ltc2195_writes :: "(port \<times> u32) list" where
  "ltc2195_writes = [(PL ADC_SPI_REG, 0x120), (PL ADC_SPI_REG, 0x8120), (PL ADC_SPI_REG, 0x18120),
     (PL ADC_SPI_REG, 0x301), (PL ADC_SPI_REG, 0x8301), (PL ADC_SPI_REG, 0x400),
     (PL ADC_SPI_REG, 0x8400), (PL ADC_SPI_REG, 0x18400), (PL ADC_SPI_REG, 0x201),
     (PL ADC_IDLYWVAL_REG, 300), (PL ADC_IDLYSTR_REG, 0xFFFF), (PL ADC_IDLYSTR_REG, 0)]"

lemma ltc2195_init_writes: "fixed_writes ltc2195_init ltc2195_writes"
proof -
  have loop: "fixed_writes (for_each [0..<20] (\<lambda>i. do { Xil_In16 (PL ADC_RAWCHA_REG); Xil_In16 (PL ADC_RAWCHB_REG);
      Xil_In16 (PL ADC_RAWCHC_REG); Xil_In16 (PL ADC_RAWCHD_REG); usleep 100000 })) []"
    by (rule fixed_none_for_each) (simp add: fixed_writes_def io_simps)
  then show ?thesis
    unfolding ltc2195_init_def fixed_writes_def
    by (simp add: io_simps ltc2195_writes_def spi_word_def del: upt_conv_Cons)
qed

end
