(* ===== verification/Startup.thy ===== *)
theory Startup imports I2c_Devices Device_Init begin

text \<open>
  \<open>main\<close> of \<^verbatim>\<open>main.c\<close> up to the start of the scheduler: the chips and the PL registers it sets. The
  initialisation of Xilinx's own drivers leaves the registers of the design alone and \<open>main\<close> goes on
  whatever it returns, so it is no part of \<open>startup\<close>.
\<close>

section \<open>Xilinx's drivers\<close>

text \<open>The arguments are the configuration that is found, if any, and the status of the calls that follow.\<close>

abbreviation (input) XST_FAILURE :: int where "XST_FAILURE \<equiv> 1"

definition init_xilpm :: "'c option \<Rightarrow> ('c \<Rightarrow> int) \<Rightarrow> int \<Rightarrow> int" where
  "init_xilpm cfg cfg_init xpm_init = (case cfg of
     None \<Rightarrow> XST_FAILURE
   | Some c \<Rightarrow> if cfg_init c \<noteq> XST_SUCCESS then cfg_init c
       else if xpm_init \<noteq> XST_SUCCESS then xpm_init else XST_SUCCESS)"

definition init_sysmon :: "'c option \<Rightarrow> ('c \<Rightarrow> int) \<Rightarrow> int \<Rightarrow> int" where
  "init_sysmon cfg cfg_init self_test = (case cfg of
     None \<Rightarrow> XST_FAILURE
   | Some c \<Rightarrow> if cfg_init c \<noteq> XST_SUCCESS then XST_FAILURE
       else if self_test \<noteq> XST_SUCCESS then XST_FAILURE else XST_SUCCESS)"

text \<open>Both succeed in the same cases; only \<open>init_xilpm\<close> reports why it did not.\<close>

lemma drivers_ready:
  "init_sysmon cfg f t = XST_SUCCESS \<longleftrightarrow> (\<exists>c. cfg = Some c \<and> f c = XST_SUCCESS \<and> t = XST_SUCCESS)"
  "init_xilpm cfg f t = XST_SUCCESS \<longleftrightarrow> init_sysmon cfg f t = XST_SUCCESS"
  by (auto simp: init_xilpm_def init_sysmon_def split: option.split)

section \<open>The sequence\<close>

definition sleep_s :: "nat \<Rightarrow> unit io" where
  "sleep_s s = usleep (s * 1000000)"

definition print_firmware_version :: "unit io" where
  "print_firmware_version = do {
     Xil_In32 (PL MOD_ID_NUM);
     Xil_In32 (PL MOD_ID_VER);
     Xil_In32 (PL PROJ_ID_NUM);
     Xil_In32 (PL PROJ_ID_VER);
     Xil_In32 (PL GIT_SHASUM);
     Xil_In32 (PL COMPILE_TIMESTAMP);
     ret ()
   }"

definition print_timestamps :: "unit io" where
  "print_timestamps = for_each [0..<5] (\<lambda>i. do {
     Xil_In32 (PL EVR_TS_S_REG);
     Xil_In32 (PL EVR_TS_NS_REG);
     sleep_s 1
   })"

text \<open>\<open>main\<close> in three parts: up to the oscillators, up to the ADC, the rest.\<close>

definition main_clocks :: "unit io" where
  "main_clocks = do {
     print_firmware_version;
     prog_ad9510;
     i2c_set_port_expander I2C_PORTEXP1_ADDR 0x40;
     ina226_init;
     usleep 10000;
     read_si569;
     sleep_s 1;
     prog_si569;
     sleep_s 1;
     read_si569;
     sleep_s 1;
     write_lmk61e2
   }"

definition main_regs :: "unit io" where
  "main_regs = do {
     Xil_Out32 (PL DMA_TRIG_DLY_REG) 1;
     Xil_Out32 (PL TEST_TRIG_DLY_REG) 1000;
     Xil_Out32 (PL TEST_TRIG_WID_REG) 10;
     Xil_Out32 (PL SWRFFE_ENB_REG) 0;
     Xil_Out32 (PL DDC_LPFILT_SEL_REG) 0;
     i2c_set_port_expander I2C_PORTEXP1_ADDR 0x40;
     read_i2c_temp 0x48;
     read_i2c_temp 0x4A;
     sleep_s 1;
     i2c_set_port_expander I2C_PORTEXP1_ADDR 0x0
   }"

definition main_triggers :: "unit io" where
  "main_triggers = do {
     Xil_Out32 (PL EVR_RST_REG) 0xFF;
     usleep 10;
     Xil_Out32 (PL EVR_RST_REG) 0;
     usleep 1000;
     Xil_Out32 (PL DMA_TRIGSRC_REG) 0;
     Xil_Out32 (PL EVR_DMA_TRIGNUM_REG) 32;
     print_timestamps;
     Xil_Out32 (PL DMA_ADCBURSTLEN_REG) 10000;
     Xil_Out32 (PL DMA_TBTBURSTLEN_REG) 10000;
     Xil_Out32 (PL DMA_FABURSTLEN_REG) 1000
   }"

definition startup :: "unit io" where
  "startup = do {
     main_clocks;
     main_regs;
     ltc2195_init;
     main_triggers;
     ReadEEPROMHardwareSettings
   }"

section \<open>What is written\<close>

lemma i2c_no_writes:
  "fixed_writes (i2c_write bs a) []" "fixed_writes (i2c_read n a) []"
  "fixed_writes (i2c_set_port_expander a p) []" "fixed_writes (read_i2c_temp a) []"
  by (simp_all add: fixed_writes_def io_simps i2c_defs read_i2c_temp_def split: prod.split)

lemma read_regs_writes: "fixed_writes (read_regs rs) []"
  unfolding read_regs_def
  by (rule fixed_none_for_each) (simp add: fixed_writes_def io_simps i2c_defs split: prod.split)

lemma run_writes:
  "fixed_writes m ws \<Longrightarrow> writes (trace (snd (run_state m w))) = writes (trace w) @ ws"
  by (simp add: fixed_writes_def)

lemma fixed_seq: "fixed_writes m a \<Longrightarrow> fixed_writes n b \<Longrightarrow> fixed_writes (do { m; n }) (a @ b)"
  by (rule fixed_bind)

lemma fixed_skip: "fixed_writes m [] \<Longrightarrow> fixed_writes n b \<Longrightarrow> fixed_writes (do { m; n }) b"
  using fixed_bind[of m "[]" "\<lambda>_. n" b] by simp

lemma fixed_out: "fixed_writes n b \<Longrightarrow> fixed_writes (do { Xil_Out32 p v; n }) ((p, v) # b)"
  using fixed_bind[OF fixed_prims(1), of "\<lambda>_. n" b p v] by simp

lemma clock_chip_writes:
  "fixed_writes read_si569 []" "fixed_writes prog_si569 []" "fixed_writes write_lmk61e2 []"
  "fixed_writes ina226_init []" "fixed_writes print_firmware_version []" "fixed_writes (sleep_s n) []"
  unfolding read_si569_def prog_si569_def write_lmk61e2_def ina226_init_def ina226_write_reg_def
    print_firmware_version_def sleep_s_def
  by (auto intro!: fixed_none_for_each fixed_skip i2c_no_writes read_regs_writes fixed_prims fixed_ret
      split: prod.split)

lemma main_clocks_writes: "fixed_writes main_clocks (map (\<lambda>v. (PL AD9510_REG, v)) ad9510_words)"
proof -
  have rest: "fixed_writes (do { i2c_set_port_expander I2C_PORTEXP1_ADDR 0x40; ina226_init; usleep 10000; read_si569;
      sleep_s 1; prog_si569; sleep_s 1; read_si569; sleep_s 1; write_lmk61e2 }) []"
    by (intro fixed_skip clock_chip_writes i2c_no_writes fixed_prims)
  show ?thesis
    unfolding main_clocks_def
    using fixed_skip[OF clock_chip_writes(5) fixed_seq[OF prog_ad9510_writes rest]] by simp
qed

definition regs_writes :: "(port \<times> u32) list" where
  "regs_writes = [(PL DMA_TRIG_DLY_REG, 1), (PL TEST_TRIG_DLY_REG, 1000), (PL TEST_TRIG_WID_REG, 10),
     (PL SWRFFE_ENB_REG, 0), (PL DDC_LPFILT_SEL_REG, 0)]"

lemma main_regs_writes: "fixed_writes main_regs regs_writes"
proof -
  have "fixed_writes (do { i2c_set_port_expander I2C_PORTEXP1_ADDR 0x40; read_i2c_temp 0x48; read_i2c_temp 0x4A;
      sleep_s 1; i2c_set_port_expander I2C_PORTEXP1_ADDR 0x0 }) []"
    by (intro fixed_skip clock_chip_writes i2c_no_writes)
  then show ?thesis
    unfolding main_regs_def regs_writes_def by (intro fixed_out)
qed

definition triggers_writes :: "(port \<times> u32) list" where
  "triggers_writes = [(PL EVR_RST_REG, 0xFF), (PL EVR_RST_REG, 0), (PL DMA_TRIGSRC_REG, 0),
     (PL EVR_DMA_TRIGNUM_REG, 32), (PL DMA_ADCBURSTLEN_REG, 10000), (PL DMA_TBTBURSTLEN_REG, 10000),
     (PL DMA_FABURSTLEN_REG, 1000)]"

lemma main_triggers_writes: "fixed_writes main_triggers triggers_writes"
proof -
  have "fixed_writes print_timestamps []"
    unfolding print_timestamps_def
    by (auto intro!: fixed_none_for_each fixed_skip clock_chip_writes fixed_prims)
  then show ?thesis
    unfolding main_triggers_def triggers_writes_def
    by (intro fixed_out fixed_skip[OF fixed_prims(4)] fixed_skip[OF \<open>fixed_writes print_timestamps []\<close>]
        fixed_prims(1))
qed

definition startup_writes :: "(port \<times> u32) list" where
  "startup_writes = map (\<lambda>v. (PL AD9510_REG, v)) ad9510_words @ regs_writes @ ltc2195_writes @ triggers_writes"

lemma startup_trace:
  "\<exists>v. writes (trace v) = writes (trace w) @ startup_writes
    \<and> run_state startup w = run_state ReadEEPROMHardwareSettings v"
proof -
  define a where "a = snd (run_state main_clocks w)"
  define b where "b = snd (run_state main_regs a)"
  define c where "c = snd (run_state ltc2195_init b)"
  define d where "d = snd (run_state main_triggers c)"
  have "writes (trace d) = writes (trace w) @ startup_writes"
    unfolding startup_writes_def d_def c_def b_def a_def
    by (simp add: run_writes[OF main_clocks_writes] run_writes[OF main_regs_writes]
        run_writes[OF ltc2195_init_writes] run_writes[OF main_triggers_writes])
  moreover have "run_state startup w = run_state ReadEEPROMHardwareSettings d"
    by (simp add: startup_def d_def c_def b_def a_def split: prod.split)
  ultimately show ?thesis by blast
qed

text \<open>The events of the last part are its own.\<close>

lemma ReadEEPROM_trace:
  "writes (trace (snd (run_state ReadEEPROMHardwareSettings v))) =
     writes (trace v) @ writes (events_of ReadEEPROMHardwareSettings v)"
proof -
  have "appends (\<lambda>_. True) ReadEEPROMHardwareSettings"
    unfolding ReadEEPROMHardwareSettings_def i2c_defs set_valid_def set_kxky_def
    by (auto intro!: appends_intros split: prod.split)
  then obtain evs where "trace (snd (run_state ReadEEPROMHardwareSettings v)) = trace v @ evs"
    by (rule appends_trace)
  then show ?thesis by (simp add: events_of_eq)
qed

section \<open>Properties\<close>

text \<open>The registers the start leaves set, apart from the scale factors.\<close>

definition startup_regs :: "(nat \<times> u32) list" where
  "startup_regs = [(AD9510_REG, 0x5a01), (DMA_TRIG_DLY_REG, 1), (TEST_TRIG_DLY_REG, 1000), (TEST_TRIG_WID_REG, 10),
     (SWRFFE_ENB_REG, 0), (DDC_LPFILT_SEL_REG, 0), (ADC_SPI_REG, 0x201), (ADC_IDLYWVAL_REG, 300),
     (ADC_IDLYSTR_REG, 0), (EVR_RST_REG, 0), (DMA_TRIGSRC_REG, 0), (EVR_DMA_TRIGNUM_REG, 32),
     (DMA_ADCBURSTLEN_REG, 10000), (DMA_TBTBURSTLEN_REG, 10000), (DMA_FABURSTLEN_REG, 1000)]"

lemma startup_last_write:
  "(if r = KX_REG \<or> r = KY_REG
    then last_write (trace (snd (run_state startup (start_world h)))) (PL r) \<notin> {Some 0, Some 0xFFFFFFFF}
    else last_write (trace (snd (run_state startup (start_world h)))) (PL r) = map_of startup_regs r)"
proof -
  obtain v where v: "writes (trace v) = startup_writes"
    "run_state startup (start_world h) = run_state ReadEEPROMHardwareSettings v"
    using startup_trace[of "start_world h"] by auto
  define es where "es = writes (events_of ReadEEPROMHardwareSettings v)"
  have lw: "last_write (trace (snd (run_state startup (start_world h)))) p =
      (case map_of (rev es) p of None \<Rightarrow> map_of (rev startup_writes) p | Some x \<Rightarrow> Some x)" for p
    by (simp add: last_write_def v ReadEEPROM_trace es_def map_add_def)
  have es: "map_of (rev es) (PL r) = None" if "r \<noteq> KX_REG" "r \<noteq> KY_REG"
    using that by (simp add: es_def ReadEEPROM_writes Let_def)
  have k: "map_of (rev es) (PL q) \<notin> {Some 0, Some 0xFFFFFFFF}" for q
    by (auto simp: es_def ReadEEPROM_writes Let_def)
  have s: "map_of (rev startup_writes) (PL q) = map_of startup_regs q" for q
    by (simp add: startup_writes_def regs_writes_def triggers_writes_def ltc2195_writes_def ad9510_words_def
        startup_regs_def)
  show ?thesis
    using k[of r] es by (auto simp: lw s startup_regs_def split: option.split)
qed

text \<open>
  Property C27 (functional): on any hardware, after the start every register but the two scale factors
  holds what the table says and no other is written: triggers come from the EVR, the switching and
  the long filter are off, the delays are strobed and the strobe and the EVR reset are released.
\<close>

theorem startup_leaves_registers:
  "(if r = KX_REG \<or> r = KY_REG
    then last_write (trace (snd (run_state startup (start_world h)))) (PL r) \<notin> {Some 0, Some 0xFFFFFFFF}
    else last_write (trace (snd (run_state startup (start_world h)))) (PL r) = map_of startup_regs r)"
  by (rule startup_last_write)

end
