(* ===== verification/Position.thy ===== *)
theory Position imports C_Float begin

text \<open>
  What \<^verbatim>\<open>dmadata.c\<close> computes from the samples of a trigger: the samples in memory and on the wire, the
  scaling by the gains, baselines, sums and the position. \<open>None\<close> stands for undefined behaviour: a store
  past the sample array or a conversion to an integer type that does not hold the value.
\<close>

declare of_int_sint [simp del] of_int_uint [simp del]

section \<open>Samples\<close>

text \<open>\<open>adcmsg_t\<close>, \<open>adc_baseline_t\<close>, \<open>adc_sum_t\<close> and \<open>adc_gain_t\<close> are one value for each channel.\<close>

record 'a channels =
  cha :: 'a
  chb :: 'a
  chc :: 'a
  chd :: 'a

type_synonym adcmsg = "u16 channels"

abbreviation four :: "'a \<Rightarrow> 'a \<Rightarrow> 'a \<Rightarrow> 'a \<Rightarrow> 'a channels" where
  "four a b c d \<equiv> \<lparr>cha = a, chb = b, chc = c, chd = d\<rparr>"

text \<open>Two words of memory are a sample, the first channel of each word in its upper half.\<close>

definition adc_sample :: "u32 \<Rightarrow> u32 \<Rightarrow> adcmsg" where
  "adc_sample r0 r1 = four (ucast (drop_bit 16 r0 AND 0xFFFF)) (ucast (r0 AND 0xFFFF))
     (ucast (drop_bit 16 r1 AND 0xFFFF)) (ucast (r1 AND 0xFFFF))"

definition read_ADC_dma :: "(nat \<Rightarrow> u32) \<Rightarrow> nat \<Rightarrow> adcmsg list \<Rightarrow> adcmsg list option" where
  "read_ADC_dma ddr nsamples adcmsg = (if nsamples \<le> length adcmsg
     then Some (map (\<lambda>i. adc_sample (ddr (2 * i)) (ddr (2 * i + 1))) [0..<nsamples] @ drop nsamples adcmsg)
     else None)"

text \<open>A product of a sample and a gain is a \<open>float\<close> and is stored as a 16 bit integer.\<close>

definition scale_value :: "rat \<Rightarrow> u16 \<Rightarrow> u16 option" where
  "scale_value g v = to_s16 (f32 (f32 (of_int (sint v)) * g))"

definition scale_sample :: "rat channels \<Rightarrow> adcmsg \<Rightarrow> adcmsg option" where
  "scale_sample gain s = (case (scale_value (cha gain) (cha s), scale_value (chb gain) (chb s),
       scale_value (chc gain) (chc s), scale_value (chd gain) (chd s)) of
     (Some a, Some b, Some c, Some d) \<Rightarrow> Some (four a b c d)
   | _ \<Rightarrow> None)"

definition scale_ADC_data :: "adcmsg list \<Rightarrow> nat \<Rightarrow> rat channels \<Rightarrow> adcmsg list option" where
  "scale_ADC_data samples nsamples gain =
     map_option (\<lambda>ss. ss @ drop nsamples samples) (those (map (scale_sample gain) (take nsamples samples)))"

text \<open>The message of the samples: every value swapped to network order in place, then sent as it
  lies in memory.\<close>

definition swap_sample :: "adcmsg \<Rightarrow> adcmsg" where
  "swap_sample s = four (htons (cha s)) (htons (chb s)) (htons (chc s)) (htons (chd s))"

definition sample_bytes :: "adcmsg \<Rightarrow> u8 list" where
  "sample_bytes s = le16 (cha s) @ le16 (chb s) @ le16 (chc s) @ le16 (chd s)"

section \<open>The position\<close>

definition mean :: "u16 list \<Rightarrow> rat" where
  "mean vs = f32 (f32 (of_int (\<Sum>v\<leftarrow>vs. sint v)) / f32 (of_nat (length vs)))"

definition calculate_baselines :: "adcmsg list \<Rightarrow> nat \<Rightarrow> nat \<Rightarrow> rat channels option" where
  "calculate_baselines adc first_sample sample_count =
    (if sample_count = 0 then Some (four 0 0 0 0)
     else if first_sample + sample_count \<le> length adc then
       (let w = take sample_count (drop first_sample adc) in
        Some (four (mean (map cha w)) (mean (map chb w)) (mean (map chc w)) (mean (map chd w))))
     else None)"

definition sum_abs :: "rat \<Rightarrow> u16 list \<Rightarrow> rat" where
  "sum_abs base = foldl (\<lambda>r v. f32 (r + \<bar>f32 (f32 (of_int (sint v)) - base)\<bar>)) 0"

definition sum_absolute_adc :: "adcmsg list \<Rightarrow> rat channels \<Rightarrow> nat \<Rightarrow> nat \<Rightarrow> rat channels option" where
  "sum_absolute_adc samples baseline first_sample sample_count =
    (if sample_count = 0 then Some (four 0 0 0 0)
     else if first_sample + sample_count \<le> length samples then
       (let w = take sample_count (drop first_sample samples) in
        Some (four (sum_abs (cha baseline) (map cha w)) (sum_abs (chb baseline) (map chb w))
          (sum_abs (chc baseline) (map chc w)) (sum_abs (chd baseline) (map chd w))))
     else None)"

definition sum4 :: "rat channels \<Rightarrow> rat" where
  "sum4 s = f32 (f32 (f32 (cha s + chb s) + chc s) + chd s)"

definition xpos :: "u32 \<Rightarrow> rat channels \<Rightarrow> rat" where
  "xpos kx s = (if sum4 s > 0
     then f32 (f32 (of_int (uint kx)) * f32 (f32 (f32 (cha s + chd s) - f32 (chb s + chc s)) / sum4 s))
     else 0)"

definition ypos :: "u32 \<Rightarrow> rat channels \<Rightarrow> rat" where
  "ypos ky s = (if sum4 s > 0
     then f32 (f32 (of_int (uint ky)) * f32 (f32 (f32 (cha s + chb s) - f32 (chc s + chd s)) / sum4 s))
     else 0)"

text \<open>The first sample above a threshold, which is an \<open>s16\<close>; -1 when there is none.\<close>

definition above :: "u16 \<Rightarrow> adcmsg \<Rightarrow> bool" where
  "above threshold s \<longleftrightarrow> \<bar>sint (cha s)\<bar> > sint threshold \<or> \<bar>sint (chb s)\<bar> > sint threshold
     \<or> \<bar>sint (chc s)\<bar> > sint threshold \<or> \<bar>sint (chd s)\<bar> > sint threshold"

fun find_adc_signal_start :: "adcmsg list \<Rightarrow> nat \<Rightarrow> u16 \<Rightarrow> nat \<Rightarrow> int option" where
  "find_adc_signal_start adc 0 threshold i = Some (-1)"
| "find_adc_signal_start [] (Suc n) threshold i = None"
| "find_adc_signal_start (s # adc) (Suc n) threshold i =
     (if above threshold s then Some (int i) else find_adc_signal_start adc n threshold (Suc i))"

section \<open>From the registers to the message\<close>

text \<open>A gain register counts in units of 1/32767; the beam delay is scaled from ADC to EVR clocks.\<close>

definition gain_of :: "u32 \<Rightarrow> rat" where
  "gain_of r = f32 (f64 (f32 (of_int (uint r)) / 32767))"

definition scale_beamdly :: "u32 \<Rightarrow> u32 option" where
  "scale_beamdly d = to_s32 (f64 (f64 (f64 (of_int (uint d)) * 124921924) / 117349100))"

text \<open>The fields of the position message, in memory order after \<open>htonl\<close>.\<close>

definition position_msg :: "u32 \<Rightarrow> u32 \<Rightarrow> rat channels \<Rightarrow> u32 \<Rightarrow> u32 \<Rightarrow> u32 \<Rightarrow> u32 \<Rightarrow> u32 \<Rightarrow> u8 list option" where
  "position_msg kx ky s count ns ts bba_x bba_y =
    (case those [to_u32 (cha s), to_u32 (chb s), to_u32 (chc s), to_u32 (chd s), to_u32 (sum4 s),
        to_s32 (f32 (xpos kx s - f32 (of_int (sint bba_x)))),
        to_s32 (f32 (ypos ky s - f32 (of_int (sint bba_y))))] of
       None \<Rightarrow> None
     | Some vs \<Rightarrow> Some (concat (map (le32 \<circ> htonl) ([count, ns, ts] @ vs))))"

text \<open>What is computed from the samples before anything is sent: the scaled samples and their sums.\<close>

definition process :: "adcmsg list \<Rightarrow> nat \<Rightarrow> rat channels \<Rightarrow> u32 \<Rightarrow> (adcmsg list \<times> rat channels) option" where
  "process adcmsg adclen gain beamdly =
    (case scale_beamdly beamdly of None \<Rightarrow> None | Some _ \<Rightarrow>
     case scale_ADC_data adcmsg adclen gain of None \<Rightarrow> None | Some scaled \<Rightarrow>
     case calculate_baselines scaled 0 50 of None \<Rightarrow> None | Some baseline \<Rightarrow>
     case sum_absolute_adc scaled baseline 50 250 of None \<Rightarrow> None | Some mags \<Rightarrow>
       Some (scaled, mags))"

section \<open>Conversions that are defined\<close>

lemma rtrunc_range: "of_int a \<le> x \<Longrightarrow> x \<le> of_int b \<Longrightarrow> a \<le> 0 \<Longrightarrow> 0 \<le> b \<Longrightarrow> a \<le> rtrunc x \<and> rtrunc x \<le> b"
  unfolding rtrunc_def by (auto simp: le_floor_iff floor_le_iff ceiling_le_iff le_ceiling_iff)

lemma sint16_range: "- 32768 \<le> sint (v :: u16)" "sint (v :: u16) \<le> 32767"
  using sint_greater_eq[of v] sint_less[of v] by simp_all

lemma of_int_s16: "- 32768 \<le> (of_int (sint (v :: u16)) :: rat)" "of_int (sint (v :: u16)) \<le> (32767 :: rat)"
proof -
  have "of_int (- 32768) \<le> (of_int (sint v) :: rat)" "of_int (sint v) \<le> (of_int 32767 :: rat)"
    using sint16_range[of v] by (simp_all only: of_int_le_iff)
  then show "- 32768 \<le> (of_int (sint v) :: rat)" "of_int (sint v) \<le> (32767 :: rat)" by simp_all
qed

lemma f32_s16 [simp]: "f32 (of_int (sint (v :: u16))) = of_int (sint v)"
  using sint16_range[of v] by (intro f32.rnd_int) simp

lemma f32_value: "\<bar>m\<bar> \<le> 2 ^ 24 \<Longrightarrow> f32 (of_int m * 2 ^ k) = of_int m * 2 ^ k"
  unfolding f32_def using fround_value[of 24 m "int k"] by simp

lemma f64_value: "\<bar>m\<bar> \<le> 2 ^ 53 \<Longrightarrow> f64 (of_int m * 2 ^ k) = of_int m * 2 ^ k"
  unfolding f64_def using fround_value[of 53 m "int k"] by simp

lemma f32_le_value: "x \<le> of_int m * 2 ^ k \<Longrightarrow> \<bar>m\<bar> \<le> 2 ^ 24 \<Longrightarrow> f32 x \<le> of_int m * 2 ^ k"
  using f32.rnd_mono[of x "of_int m * 2 ^ k"] by (simp add: f32_value)

lemma f64_le_value: "x \<le> of_int m * 2 ^ k \<Longrightarrow> \<bar>m\<bar> \<le> 2 ^ 53 \<Longrightarrow> f64 x \<le> of_int m * 2 ^ k"
  using f64.rnd_mono[of x "of_int m * 2 ^ k"] by (simp add: f64_value)

text \<open>A gain register up to 32767 is a factor of at most one, and then every product fits.\<close>

lemma gain_of_range: "unat r \<le> 32767 \<Longrightarrow> 0 \<le> gain_of r \<and> gain_of r \<le> 1"
proof -
  assume "unat r \<le> 32767"
  moreover have "uint r = int (unat r)" by simp
  ultimately have u: "uint r \<le> 32767" by linarith
  have e: "f32 (of_int (uint r)) = of_int (uint r)" using u by (intro f32.rnd_int) simp
  have "of_int (uint r) \<le> (of_int 32767 :: rat)" using u by (simp only: of_int_le_iff)
  then have "of_int (uint r) / 32767 \<le> (1 :: rat)" by simp
  then have "f64 (of_int (uint r) / 32767) \<le> 1"
    using f64.rnd_mono[of "of_int (uint r) / 32767" 1] by (simp only: f64.rnd_1)
  moreover have "0 \<le> f64 (of_int (uint r) / 32767)" by (intro f64.rnd_nonneg) simp
  ultimately show ?thesis
    unfolding gain_of_def e using f32.rnd_mono[of _ 1] f32.rnd_nonneg by (simp add: f32.rnd_1)
qed

lemma gain_of_unity: "gain_of 32767 = 1"
  using f32.rnd_int[of 32767] by (simp add: gain_of_def f32.rnd_1 f64.rnd_1)

lemma scale_value_Some: "0 \<le> g \<Longrightarrow> g \<le> 1 \<Longrightarrow> \<exists>w. scale_value g v = Some w"
proof -
  assume g: "0 \<le> g" "g \<le> 1"
  let ?s = "of_int (sint v) :: rat"
  have s: "- 32768 \<le> ?s" "?s \<le> 32767" using of_int_s16[of v] .
  have "- 32768 \<le> ?s * g \<and> ?s * g \<le> 32767"
  proof (cases "0 \<le> ?s")
    case True
    then show ?thesis using mult_left_le[of g ?s] mult_nonneg_nonneg[of ?s g] g s by linarith
  next
    case False
    then have "0 \<le> - ?s" by linarith
    then have "- ?s * g \<le> - ?s" "0 \<le> - ?s * g" using mult_left_le[of g "- ?s"] mult_nonneg_nonneg[of "- ?s" g] g by blast+
    then show ?thesis using s by linarith
  qed
  then have "of_int (- 32768) \<le> f32 (?s * g)" "f32 (?s * g) \<le> of_int 32767"
    using f32.rnd_mono[of "of_int (- 32768)" "?s * g"] f32.rnd_mono[of "?s * g" "of_int 32767"]
      f32.rnd_int[of "- 32768"] f32.rnd_int[of 32767] by simp_all
  from rtrunc_range[OF this] show ?thesis by (simp add: scale_value_def to_s16_def)
qed

lemma scale_value_unity: "scale_value 1 v = Some v"
proof -
  have "rtrunc (of_int n) = n" for n by (simp add: rtrunc_def)
  moreover have "word_of_int (sint v) = v" by (metis of_int_sint scast_id)
  ultimately show ?thesis using sint16_range[of v] by (simp add: scale_value_def to_s16_def)
qed

lemma those_map_iff: "those (map f xs) = Some ys \<longleftrightarrow> list_all2 (\<lambda>x y. f x = Some y) xs ys"
  by (induction xs arbitrary: ys) (auto simp: list_all2_Cons1 split: option.splits)

lemma those_map_Some: "(\<And>x. x \<in> set xs \<Longrightarrow> \<exists>y. f x = Some y) \<Longrightarrow> \<exists>ys. those (map f xs) = Some ys"
  by (induction xs) fastforce+

definition unit_gains :: "rat channels \<Rightarrow> bool" where
  "unit_gains g \<longleftrightarrow> 0 \<le> cha g \<and> cha g \<le> 1 \<and> 0 \<le> chb g \<and> chb g \<le> 1 \<and> 0 \<le> chc g \<and> chc g \<le> 1 \<and> 0 \<le> chd g \<and> chd g \<le> 1"

lemma scale_sample_Some: "unit_gains g \<Longrightarrow> \<exists>t. scale_sample g s = Some t"
  using scale_value_Some[of "cha g" "cha s"] scale_value_Some[of "chb g" "chb s"]
    scale_value_Some[of "chc g" "chc s"] scale_value_Some[of "chd g" "chd s"]
  by (auto simp: scale_sample_def unit_gains_def)

lemma scale_ADC_data_Some:
  assumes "unit_gains g" "n \<le> length buf"
  shows "\<exists>ss. scale_ADC_data buf n g = Some ss \<and> length ss = length buf"
proof -
  obtain ys where ys: "those (map (scale_sample g) (take n buf)) = Some ys"
    using those_map_Some scale_sample_Some[OF assms(1)] by metis
  then have "length ys = length (take n buf)" by (metis those_map_iff list_all2_lengthD)
  with ys assms(2) show ?thesis by (simp add: scale_ADC_data_def)
qed

section \<open>Bounds of the sums and the position\<close>

lemma mean_bound:
  assumes "length vs \<le> 512"
  shows "\<bar>mean vs\<bar> \<le> 32768"
proof (cases "vs = []")
  case True
  then show ?thesis by (simp add: mean_def f32.rnd_0)
next
  case False
  let ?S = "\<Sum>v\<leftarrow>vs. sint v"
  have S: "\<bar>?S\<bar> \<le> 32768 * int (length vs)"
  proof (induction vs)
    case (Cons v vs)
    then show ?case using sint16_range[of v] by simp
  qed simp
  then have e: "f32 (of_int ?S) = of_int ?S" using assms by (intro f32.rnd_int) simp
  have l: "f32 (of_nat (length vs)) = of_nat (length vs)"
    using assms f32.rnd_int[of "int (length vs)"] by simp
  have pos: "0 < (of_nat (length vs) :: rat)" using False by simp
  have "of_int \<bar>?S\<bar> \<le> (of_int (32768 * int (length vs)) :: rat)" using S by (simp only: of_int_le_iff)
  then have "\<bar>of_int ?S\<bar> \<le> (32768 :: rat) * of_nat (length vs)" by simp
  then have "\<bar>of_int ?S / of_nat (length vs)\<bar> \<le> (32768 :: rat)"
    using pos by (simp add: abs_divide pos_divide_le_eq)
  then show ?thesis
    using f32.rnd_abs_le_int[of _ 32768] by (simp add: mean_def e l)
qed

lemma sum_abs_snoc: "sum_abs b (vs @ [v]) = f32 (sum_abs b vs + \<bar>f32 (of_int (sint v) - b)\<bar>)"
  by (simp add: sum_abs_def)

lemma sum_abs_bounds:
  assumes "\<bar>b\<bar> \<le> 32768"
  shows "length vs \<le> 256 \<Longrightarrow> 0 \<le> sum_abs b vs \<and> sum_abs b vs \<le> of_int (65536 * int (length vs)) \<and> f32 (sum_abs b vs) = sum_abs b vs"
proof (induction vs rule: rev_induct)
  case Nil
  then show ?case by (simp add: sum_abs_def f32.rnd_0)
next
  case (snoc v vs)
  let ?t = "\<bar>f32 (of_int (sint v) - b)\<bar>"
  have "\<bar>of_int (sint v) - b\<bar> \<le> 65536" using assms of_int_s16[of v] by linarith
  then have "\<bar>of_int (sint v) - b\<bar> \<le> of_int 65536" by simp
  then have t: "?t \<le> of_int 65536" by (rule f32.rnd_abs_le_int) simp
  have s: "0 \<le> sum_abs b vs" "sum_abs b vs \<le> of_int (65536 * int (length vs))" using snoc by simp_all
  have "of_int (65536 * int (length (vs @ [v]))) = (of_int (65536 * int (length vs)) + of_int 65536 :: rat)"
    by (simp add: algebra_simps)
  with s t have "sum_abs b vs + ?t \<le> of_int (65536 * int (length (vs @ [v])))" by linarith
  then have "f32 (sum_abs b vs + ?t) \<le> of_int (65536 * int (length (vs @ [v])))"
    using snoc.prems by (intro f32.rnd_le_int) simp_all
  then show ?case
    using s by (simp add: sum_abs_snoc f32.rnd_nonneg f32.rnd_rnd)
qed

text \<open>\<open>good_sums s\<close>: the four sums are non-negative values of the format below \<open>2 ^ 24\<close>.\<close>

definition good_sums :: "rat channels \<Rightarrow> bool" where
  "good_sums s \<longleftrightarrow> list_all (\<lambda>x. 0 \<le> x \<and> x \<le> 2 ^ 24 \<and> f32 x = x) [cha s, chb s, chc s, chd s]"

lemma good_sum_abs: "\<bar>b\<bar> \<le> 32768 \<Longrightarrow> length vs = 250 \<Longrightarrow> 0 \<le> sum_abs b vs \<and> sum_abs b vs \<le> 2 ^ 24 \<and> f32 (sum_abs b vs) = sum_abs b vs"
  using sum_abs_bounds[of b vs] by simp

definition window_sum :: "(adcmsg \<Rightarrow> u16) \<Rightarrow> adcmsg list \<Rightarrow> rat" where
  "window_sum ch samples = sum_abs (mean (map ch (take 50 samples))) (map ch (take 250 (drop 50 samples)))"

lemma process_result:
  "process buf n g bd = Some (scaled, mags) \<Longrightarrow>
     scale_ADC_data buf n g = Some scaled \<and> 300 \<le> length scaled \<and>
     mags = four (window_sum cha scaled) (window_sum chb scaled) (window_sum chc scaled) (window_sum chd scaled)"
  unfolding process_def calculate_baselines_def sum_absolute_adc_def Let_def window_sum_def
  by (auto split: option.splits if_splits)

lemma process_good_sums: "process buf n g bd = Some (scaled, mags) \<Longrightarrow> good_sums mags"
proof -
  assume "process buf n g bd = Some (scaled, mags)"
  note r = process_result[OF this]
  have "0 \<le> window_sum ch scaled \<and> window_sum ch scaled \<le> 2 ^ 24 \<and> f32 (window_sum ch scaled) = window_sum ch scaled" for ch
    unfolding window_sum_def using r by (intro good_sum_abs mean_bound) (auto simp: min_def)
  then show ?thesis using r by (simp only: good_sums_def list.pred_inject channels.simps simp_thms)
qed

lemma sum4_le: "good_sums s \<Longrightarrow> 0 \<le> sum4 s \<and> sum4 s \<le> 2 ^ 27"
proof -
  assume g: "good_sums s"
  have p: "x \<le> 2 ^ k \<Longrightarrow> f32 x \<le> 2 ^ k" for x k
    using f32_le_value[of x 1 k] by simp
  have "f32 (cha s + chb s) \<le> 2 ^ 25" using g by (intro p) (simp add: good_sums_def)
  then have "f32 (f32 (cha s + chb s) + chc s) \<le> 2 ^ 26" using g by (intro p) (simp add: good_sums_def)
  then have "sum4 s \<le> 2 ^ 27" unfolding sum4_def using g by (intro p) (simp add: good_sums_def)
  moreover have "0 \<le> sum4 s"
    unfolding sum4_def using g by (intro f32.rnd_nonneg add_nonneg_nonneg) (simp_all add: good_sums_def)
  ultimately show ?thesis by blast
qed

lemma sum4_pairs:
  assumes "good_sums s"
  shows "\<bar>f32 (f32 (cha s + chd s) - f32 (chb s + chc s))\<bar> \<le> sum4 s"
    "\<bar>f32 (f32 (cha s + chb s) - f32 (chc s + chd s))\<bar> \<le> sum4 s"
proof -
  have f: "f32 (sum4 s) = sum4 s" by (simp add: sum4_def f32.rnd_rnd)
  have n: "0 \<le> f32 (cha s + chd s)" "0 \<le> f32 (chb s + chc s)" "0 \<le> f32 (cha s + chb s)" "0 \<le> f32 (chc s + chd s)"
    using assms by (auto simp: good_sums_def intro!: f32.rnd_nonneg)
  have le: "f32 (cha s + chd s) \<le> sum4 s" "f32 (chb s + chc s) \<le> sum4 s"
    "f32 (cha s + chb s) \<le> sum4 s" "f32 (chc s + chd s) \<le> sum4 s"
    unfolding sum4_def using assms f32.sum_ge_pair[of "cha s" "chb s" "chc s" "chd s"]
    by (simp_all add: good_sums_def)
  have a: "\<bar>x - y\<bar> \<le> sum4 s \<Longrightarrow> \<bar>f32 (x - y)\<bar> \<le> sum4 s" for x y
    using f32.rnd_abs_le[of "x - y" "sum4 s"] by (simp add: f)
  show "\<bar>f32 (f32 (cha s + chd s) - f32 (chb s + chc s))\<bar> \<le> sum4 s"
    "\<bar>f32 (f32 (cha s + chb s) - f32 (chc s + chd s))\<bar> \<le> sum4 s"
    using n le by (intro a; linarith)+
qed

text \<open>A factor times a quotient of absolute value at most one.\<close>

lemma scaled_quotient: "0 \<le> k \<Longrightarrow> \<bar>d\<bar> \<le> t \<Longrightarrow> 0 < t \<Longrightarrow> \<bar>f32 (f32 k * f32 (d / t))\<bar> \<le> f32 k"
proof -
  assume "0 \<le> k" and dt: "\<bar>d\<bar> \<le> t" "0 < t"
  then have k: "0 \<le> f32 k" by (intro f32.rnd_nonneg)
  have "\<bar>f32 k * f32 (d / t)\<bar> \<le> f32 k * 1"
    unfolding abs_mult abs_of_nonneg[OF k] using f32.quotient_le_1[OF dt] k by (rule mult_left_mono)
  then show ?thesis using f32.rnd_abs_le[of "f32 k * f32 (d / t)" "f32 k"] by (simp add: f32.rnd_rnd)
qed

lemma position_le: "good_sums s \<Longrightarrow> \<bar>xpos kx s\<bar> \<le> f32 (of_int (uint kx)) \<and> \<bar>ypos ky s\<bar> \<le> f32 (of_int (uint ky))"
  using scaled_quotient[OF _ sum4_pairs(1)[of s], of "of_int (uint kx)"]
    scaled_quotient[OF _ sum4_pairs(2)[of s], of "of_int (uint ky)"]
    f32.rnd_nonneg[of "of_int (uint kx)"] f32.rnd_nonneg[of "of_int (uint ky)"]
  by (simp add: xpos_def ypos_def)

section \<open>Results that exist\<close>

lemma f32_1e9: "x \<le> 1000000000 \<Longrightarrow> f32 x \<le> 1000000000"
  using f32_le_value[of x 1953125 9] by simp

lemma to_u32_Some: "0 \<le> x \<Longrightarrow> x \<le> 2 ^ 27 \<Longrightarrow> \<exists>w. to_u32 x = Some w"
  using rtrunc_range[of 0 x "2 ^ 27"] by (simp add: to_u32_def)

lemma to_s32_Some: "\<bar>x\<bar> \<le> 2000000000 \<Longrightarrow> \<exists>w. to_s32 x = Some w"
proof -
  assume "\<bar>x\<bar> \<le> 2000000000"
  then have "of_int (- 2000000000) \<le> x" "x \<le> of_int 2000000000" by (simp_all add: abs_le_iff)
  from rtrunc_range[OF this] show ?thesis by (simp add: to_s32_def)
qed

lemma of_int_1e9: "n \<le> 1000000000 \<Longrightarrow> (of_int n :: rat) \<le> 1000000000"
proof -
  assume "n \<le> 1000000000"
  then have "(of_int n :: rat) \<le> of_int 1000000000" by (simp only: of_int_le_iff)
  then show ?thesis by simp
qed

text \<open>A position of at most a metre less an offset of at most a metre.\<close>

lemma offset_Some:
  assumes "\<bar>p\<bar> \<le> f32 (of_int k)" "k \<le> 1000000000" "\<bar>b\<bar> \<le> 1000000000"
  shows "\<exists>w. to_s32 (f32 (p - f32 (of_int b))) = Some w"
proof -
  have p: "\<bar>p\<bar> \<le> 1000000000"
    using assms f32_1e9[OF of_int_1e9[of k]] by linarith
  have "(of_int \<bar>b\<bar> :: rat) \<le> 1000000000" using of_int_1e9 assms by blast
  then have "f32 (of_int \<bar>b\<bar>) \<le> 1000000000" by (rule f32_1e9)
  then have b: "\<bar>f32 (of_int b)\<bar> \<le> 1000000000" by (simp add: f32.rnd_abs)
  have "\<bar>p - f32 (of_int b)\<bar> \<le> 2000000000" using p b by linarith
  then have "\<bar>f32 (p - f32 (of_int b))\<bar> \<le> f32 2000000000" by (rule f32.rnd_abs_le)
  also have "f32 2000000000 = 2000000000" using f32_value[of 1953125 10] by simp
  finally show ?thesis by (rule to_s32_Some)
qed

lemma position_msg_Some:
  assumes "good_sums s" "uint kx \<le> 1000000000" "uint ky \<le> 1000000000"
    "\<bar>sint bx\<bar> \<le> 1000000000" "\<bar>sint by\<bar> \<le> 1000000000"
  shows "\<exists>m. position_msg kx ky s cnt ns ts bx by = Some m"
proof -
  have u: "\<exists>w. to_u32 (cha s) = Some w" "\<exists>w. to_u32 (chb s) = Some w" "\<exists>w. to_u32 (chc s) = Some w"
    "\<exists>w. to_u32 (chd s) = Some w" "\<exists>w. to_u32 (sum4 s) = Some w"
    using assms(1) sum4_le[OF assms(1)] by (auto simp: good_sums_def intro!: to_u32_Some)
  have p: "\<exists>w. to_s32 (f32 (xpos kx s - f32 (of_int (sint bx)))) = Some w"
    "\<exists>w. to_s32 (f32 (ypos ky s - f32 (of_int (sint by)))) = Some w"
    using position_le[OF assms(1), of kx ky] assms by (auto intro!: offset_Some)
  from u p show ?thesis by (auto simp: position_msg_def)
qed

lemma scale_beamdly_Some: "uint d \<le> 1000000000 \<Longrightarrow> \<exists>w. scale_beamdly d = Some w"
proof -
  assume d: "uint d \<le> 1000000000"
  then have e: "f64 (of_int (uint d)) = of_int (uint d)" by (intro f64.rnd_int) simp
  have r: "0 \<le> (of_int (uint d) :: rat)" "(of_int (uint d) :: rat) \<le> 1000000000"
    using of_int_1e9[OF d] by simp_all
  have "f64 (of_int (uint d) * 124921924) \<le> of_int 1 * 2 ^ 57"
    using r by (intro f64_le_value) simp_all
  moreover have "0 \<le> f64 (of_int (uint d) * 124921924)" using r by (intro f64.rnd_nonneg) simp
  ultimately have q: "0 \<le> f64 (of_int (uint d) * 124921924) / 117349100"
    "f64 (of_int (uint d) * 124921924) / 117349100 \<le> of_int 1300000000" by simp_all
  have "\<bar>f64 (f64 (of_int (uint d) * 124921924) / 117349100)\<bar> \<le> of_int 1300000000"
    using q by (intro f64.rnd_abs_le_int) simp_all
  then have "\<bar>f64 (f64 (of_int (uint d) * 124921924) / 117349100)\<bar> \<le> 2000000000" by simp
  then show ?thesis unfolding scale_beamdly_def e by (rule to_s32_Some)
qed

lemma process_Some:
  assumes "unit_gains g" "n \<le> length buf" "300 \<le> length buf" "uint bd \<le> 1000000000"
  shows "\<exists>scaled mags. process buf n g bd = Some (scaled, mags) \<and> length scaled = length buf"
proof -
  obtain ss where "scale_ADC_data buf n g = Some ss" "length ss = length buf"
    using scale_ADC_data_Some assms by blast
  moreover obtain v where "scale_beamdly bd = Some v" using scale_beamdly_Some assms by blast
  ultimately show ?thesis
    using assms by (simp add: process_def calculate_baselines_def sum_absolute_adc_def Let_def)
qed

section \<open>Properties of the computation\<close>

lemma find_adc_signal_start_first:
  assumes "n \<le> length adc"
  shows "find_adc_signal_start adc n threshold i =
    Some (case find (above threshold \<circ> (!) adc) [0..<n] of None \<Rightarrow> -1 | Some j \<Rightarrow> int (i + j))"
  using assms
proof (induction adc n threshold i rule: find_adc_signal_start.induct)
  case (3 s adc n threshold i)
  have "[0..<Suc n] = 0 # map Suc [0..<n]" by (simp add: map_Suc_upt upt_conv_Cons del: upt_Suc)
  moreover have "find P (map Suc xs) = map_option Suc (find (P \<circ> Suc) xs)" for P and xs :: "nat list"
    by (induction xs) simp_all
  ultimately show ?case using 3 by (auto simp: comp_def simp del: upt_Suc split: option.split)
qed simp_all

text \<open>
  Property C4 (bounds): each sum is at most \<open>2 ^ 24\<close>, and the position never leaves the interval from
  minus the scale factor to the scale factor, however the \<open>float\<close> operations round; with a signal on
  the two electrodes of one side only it is the scale factor.
\<close>

theorem position_bounded:
  assumes "process buf n g bd = Some (scaled, s)"
  shows "list_all (\<lambda>x. 0 \<le> x \<and> x \<le> 2 ^ 24) [cha s, chb s, chc s, chd s]
    \<and> \<bar>xpos kx s\<bar> \<le> f32 (of_int (uint kx)) \<and> \<bar>ypos ky s\<bar> \<le> f32 (of_int (uint ky))
    \<and> (chb s = 0 \<and> chc s = 0 \<and> 0 < cha s \<longrightarrow> xpos kx s = f32 (of_int (uint kx)))
    \<and> (chc s = 0 \<and> chd s = 0 \<and> 0 < cha s \<longrightarrow> ypos ky s = f32 (of_int (uint ky)))"
proof -
  have g: "good_sums s" using process_good_sums[OF assms] .
  have one: "f32 (f32 k * f32 (t / t)) = f32 k" if "0 < t" for k t
    using that by (simp add: f32.rnd_1 f32.rnd_rnd)
  have x: "xpos kx s = f32 (of_int (uint kx))" if c: "chb s = 0" "chc s = 0" "0 < cha s"
  proof -
    have s4: "sum4 s = f32 (cha s + chd s)" using g c by (simp add: sum4_def good_sums_def)
    have "cha s \<le> sum4 s" using g f32.rnd_add_ge[of "cha s" "chd s"] unfolding s4 by (simp add: good_sums_def)
    with c(3) have p: "0 < f32 (cha s + chd s)" unfolding s4 by linarith
    then show ?thesis
      using one[OF p] by (simp add: xpos_def s4 c f32.rnd_0 f32.rnd_rnd)
  qed
  have y: "ypos ky s = f32 (of_int (uint ky))" if c: "chc s = 0" "chd s = 0" "0 < cha s"
  proof -
    have s4: "sum4 s = f32 (cha s + chb s)" using g c by (simp add: sum4_def good_sums_def f32.rnd_rnd)
    have "cha s \<le> sum4 s" using g f32.rnd_add_ge[of "cha s" "chb s"] unfolding s4 by (simp add: good_sums_def)
    with c(3) have p: "0 < f32 (cha s + chb s)" unfolding s4 by linarith
    then show ?thesis
      using one[OF p] by (simp add: ypos_def s4 c f32.rnd_0 f32.rnd_rnd)
  qed
  from g position_le[OF g, of kx ky] x y show ?thesis by (auto simp: good_sums_def)
qed

theorem position_bounded_witness:
  "\<exists>scaled s. process (replicate 300 (four 1 2 3 4)) 300 (four 1 1 1 1) 0 = Some (scaled, s) \<and> \<bar>xpos 10000000 s\<bar> \<le> f32 (of_int (uint (10000000 :: u32)))"
proof -
  obtain scaled s where p: "process (replicate 300 (four 1 2 3 4)) 300 (four 1 1 1 1) 0 = Some (scaled, s)"
    using process_Some[of "four 1 1 1 1" 300 "replicate 300 (four 1 2 3 4)" 0] by (auto simp: unit_gains_def)
  then show ?thesis using position_bounded[OF p, of 10000000 0] by blast
qed

lemma gain_of_mono: "uint g \<le> uint h \<Longrightarrow> gain_of g \<le> gain_of h"
  unfolding gain_of_def
  by (intro f32.rnd_mono f64.rnd_mono divide_right_mono) simp_all

lemma gain_above_unity: "32768 \<le> uint g \<Longrightarrow> 32769 / 32768 \<le> gain_of g"
proof -
  have v: "fround p (32769 / 32768) = 32769 / 32768" if "24 \<le> p" for p
  proof -
    have "\<bar>32769 :: int\<bar> \<le> 2 ^ 24" by simp
    also have "(2 :: int) ^ 24 \<le> 2 ^ p" using that by (intro power_increasing) simp_all
    finally show ?thesis using fround_value[of p 32769 "- 15"] that by simp
  qed
  have "f32 32768 = 32768" using f32.rnd_int[of 32768] by simp
  then have "f64 (32769 / 32768) \<le> f64 (f32 (of_int (uint (32768 :: u32))) / 32767)"
    by (intro f64.rnd_mono) simp
  then have "32769 / 32768 \<le> f64 (f32 (of_int (uint (32768 :: u32))) / 32767)"
    using v[of 53] by (simp add: f64_def)
  from f32.rnd_mono[OF this] have "32769 / 32768 \<le> gain_of 32768"
    using v[of 24] by (simp add: gain_of_def f32_def)
  moreover assume "32768 \<le> uint g"
  ultimately show ?thesis using gain_of_mono[of 32768 g] by simp
qed

text \<open>
  A sample at the negative end of the range has a defined product exactly for gain
  registers up to 32767, the value that stands for one; the message that sets a gain does not
  check it.
\<close>

theorem gain_above_one_overflows: "scale_value (gain_of g) 0x8000 = None \<longleftrightarrow> 32767 < unat g"
proof (cases "unat g \<le> 32767")
  case True
  then show ?thesis using scale_value_Some[of "gain_of g" "0x8000"] gain_of_range by auto
next
  case False
  have s: "sint (0x8000 :: u16) = - 32768" by simp
  have "uint g = int (unat g)" by simp
  with False have "32769 / 32768 \<le> gain_of g" by (intro gain_above_unity) linarith
  then have "- 32768 * gain_of g \<le> of_int (- 32769)" by simp
  then have "f32 (- 32768 * gain_of g) \<le> of_int (- 32769)"
    using f32.rnd_mono[of "- 32768 * gain_of g" "of_int (- 32769)"] f32.rnd_int[of "- 32769"] by simp
  then have "rtrunc (f32 (- 32768 * gain_of g)) \<le> - 32769"
    by (auto simp: rtrunc_def ceiling_le_iff)
  moreover have "f32 (of_int (sint (0x8000 :: u16))) = - 32768" unfolding s using f32.rnd_int[of "- 32768"] by simp
  ultimately show ?thesis using False by (simp add: scale_value_def to_s16_def)
qed

end
