(* ===== verification/Dma_Data.thy ===== *)
theory Dma_Data imports Dma_Arm Position begin

text \<open>
  The DMA data thread, \<^verbatim>\<open>dmadata.c\<close>: when the trigger counter has moved it takes the samples of the
  four channels from memory, has the position computed from them (Position), sends the samples
  and the position to the clients, and arms the next trigger.
\<close>

declare of_int_sint [simp del] of_int_uint [simp del]

section \<open>The thread\<close>

definition send_ADC_dma :: "adcmsg list \<Rightarrow> nat \<Rightarrow> adcmsg list io" where
  "send_ADC_dma adcmsg nsamples = do {
     let swapped = map swap_sample (take nsamples adcmsg);
     psc_send_msg 53 (concat (map sample_bytes swapped));
     ret (swapped @ drop nsamples adcmsg)
   }"

definition read_gains :: "rat channels io" where
  "read_gains = do {
     a \<leftarrow> Xil_In32 (PL CHA_GAIN_REG);
     b \<leftarrow> Xil_In32 (PL CHB_GAIN_REG);
     c \<leftarrow> Xil_In32 (PL CHC_GAIN_REG);
     d \<leftarrow> Xil_In32 (PL CHD_GAIN_REG);
     ret (four (gain_of a) (gain_of b) (gain_of c) (gain_of d))
   }"

definition send_position :: "u32 \<Rightarrow> u32 \<Rightarrow> rat channels \<Rightarrow> bool io" where
  "send_position kx ky s = do {
     count \<leftarrow> Xil_In32 (PL SA_TRIGNUM_REG);
     ns \<leftarrow> Xil_In32 (PL EVR_TS_NS_REG);
     ts \<leftarrow> Xil_In32 (PL EVR_TS_S_REG);
     bba_x \<leftarrow> Xil_In32 (PL BBA_XOFF_REG);
     bba_y \<leftarrow> Xil_In32 (PL BBA_YOFF_REG);
     case position_msg kx ky s count ns ts bba_x bba_y of
       None \<Rightarrow> ret False
     | Some msg \<Rightarrow> do { psc_send_msg 31 msg; ret True }
   }"

definition finish_trigger :: "unit io" where
  "finish_trigger = do {
     Xil_Out32 (PL DMA_TXTOIOC_DONE_REG) 1;
     Xil_Out32 (PL DMA_TXTOIOC_DONE_REG) 0;
     dma_arm
   }"

definition serve_trigger :: "adcmsg list \<Rightarrow> adcmsg list option io" where
  "serve_trigger adcmsg = do {
     kx \<leftarrow> Xil_In32 (PL KX_REG);
     ky \<leftarrow> Xil_In32 (PL KY_REG);
     gain \<leftarrow> read_gains;
     adclen \<leftarrow> Xil_In32 (PL DMA_ADCBURSTLEN_REG);
     ddr \<leftarrow> read_ddr;
     case read_ADC_dma ddr (unat adclen) adcmsg of None \<Rightarrow> ret None | Some raw \<Rightarrow> do {
       Xil_In32 (PL TRIGTOBEAM_THRESH_REG);
       beamdly \<leftarrow> Xil_In32 (PL TRIGTOBEAM_DLY_REG);
       case process raw (unat adclen) gain beamdly of None \<Rightarrow> ret None | Some (scaled, mags) \<Rightarrow> do {
         swapped \<leftarrow> send_ADC_dma scaled (unat adclen);
         ok \<leftarrow> send_position kx ky mags;
         if ok then do { finish_trigger; ret (Some swapped) } else ret None
       }
     }
   }"

text \<open>One turn of the loop; the state is \<open>prevtrignum\<close> and the static sample array.\<close>

definition dmadata_turn :: "u32 \<times> adcmsg list \<Rightarrow> (u32 \<times> adcmsg list) option io" where
  "dmadata_turn = (\<lambda>(prevtrignum, adcmsg). do {
     vTaskDelay 10;
     trignum \<leftarrow> Xil_In32 (PL DMA_TRIGCNT_REG);
     if trignum \<noteq> prevtrignum then do {
       r \<leftarrow> serve_trigger adcmsg;
       ret (map_option (Pair trignum) r)
     } else ret (Some (prevtrignum, adcmsg))
   })"

text \<open>The loop does not end; these are its first \<open>n\<close> turns.\<close>

fun dmadata_turns :: "nat \<Rightarrow> u32 \<times> adcmsg list \<Rightarrow> (u32 \<times> adcmsg list) option io" where
  "dmadata_turns 0 st = ret (Some st)"
| "dmadata_turns (Suc n) st = do {
     r \<leftarrow> dmadata_turn st;
     case r of None \<Rightarrow> ret None | Some st' \<Rightarrow> dmadata_turns n st'
   }"

definition dmadata_push :: "nat \<Rightarrow> (u32 \<times> adcmsg list) option io" where
  "dmadata_push n = do {
     dma_arm;
     dmadata_turns n (0, replicate ADC_DMA_MAX_LEN (four 0 0 0 0))
   }"

section \<open>A trigger is always served\<close>

text \<open>The settings under which every conversion is defined.\<close>

definition in_range :: "hw \<Rightarrow> bool" where
  "in_range h \<longleftrightarrow> (\<forall>tr.
     unat (hw_in32 h tr (PL DMA_ADCBURSTLEN_REG)) \<le> ADC_DMA_MAX_LEN
     \<and> list_all (\<lambda>r. unat (hw_in32 h tr (PL r)) \<le> 32767) [CHA_GAIN_REG, CHB_GAIN_REG, CHC_GAIN_REG, CHD_GAIN_REG]
     \<and> list_all (\<lambda>r. uint (hw_in32 h tr (PL r)) \<le> 1000000000) [KX_REG, KY_REG, TRIGTOBEAM_DLY_REG]
     \<and> list_all (\<lambda>r. \<bar>sint (hw_in32 h tr (PL r))\<bar> \<le> 1000000000) [BBA_XOFF_REG, BBA_YOFF_REG])"

text \<open>What a turn does to the outside: the messages it sends and the ports it writes, in order, and
  the values of the trigger counter it reads.\<close>

fun out_ev :: "event \<Rightarrow> (u16 + port) list" where
  "out_ev (PscSend i b) = [Inl i]"
| "out_ev (Wr32 p v) = [Inr p]"
| "out_ev _ = []"

definition outs :: "event list \<Rightarrow> (u16 + port) list" where
  "outs evs = concat (map out_ev evs)"

fun trig_ev :: "event \<Rightarrow> u32 list" where
  "trig_ev (Rd32 p v) = (if p = PL DMA_TRIGCNT_REG then [v] else [])"
| "trig_ev _ = []"

definition trig_reads :: "event list \<Rightarrow> u32 list" where
  "trig_reads evs = concat (map trig_ev evs)"

lemma outs_simps [simp]:
  "outs [] = []" "outs (e # es) = out_ev e @ outs es" "outs (es @ fs) = outs es @ outs fs"
  "trig_reads [] = []" "trig_reads (e # es) = trig_ev e @ trig_reads es" "trig_reads (es @ fs) = trig_reads es @ trig_reads fs"
  by (simp_all add: outs_def trig_reads_def)

definition arm_outs :: "(u16 + port) list" where
  "arm_outs = map Inr [PL DMA_FIFORST_REG, PL DMA_FIFORST_REG, AXI_DMA_ADC S2MM_DMACR,
     AXI_DMA_ADC S2MM_DMACR, AXI_DMA_ADC S2MM_DA, AXI_DMA_ADC S2MM_LEN]"

definition trigger_outs :: "(u16 + port) list" where
  "trigger_outs = [Inl 53, Inl 31, Inr (PL DMA_TXTOIOC_DONE_REG), Inr (PL DMA_TXTOIOC_DONE_REG)] @ arm_outs"

lemma ends_dma_arm: "ends h dma_arm (\<lambda>_ evs. outs evs = arm_outs \<and> trig_reads evs = [])"
  unfolding dma_arm_def by (intro ends_intros) (simp add: arm_outs_def)

lemma ends_finish_trigger:
  "ends h finish_trigger (\<lambda>_ evs. outs evs = [Inr (PL DMA_TXTOIOC_DONE_REG), Inr (PL DMA_TXTOIOC_DONE_REG)] @ arm_outs
     \<and> trig_reads evs = [])"
  unfolding finish_trigger_def
  by (intro ends_intros, rule ends_weaken[OF ends_dma_arm]) simp

lemma ends_read_gains:
  assumes "in_range h"
  shows "ends h read_gains (\<lambda>g evs. unit_gains g \<and> outs evs = [] \<and> trig_reads evs = [])"
  unfolding read_gains_def
  using assms by (intro ends_intros) (simp add: unit_gains_def in_range_def gain_of_range)

lemma ends_send_position:
  assumes "in_range h" "good_sums s" "uint kx \<le> 1000000000" "uint ky \<le> 1000000000"
  shows "ends h (send_position kx ky s) (\<lambda>ok evs. ok \<and> outs evs = [Inl 31] \<and> trig_reads evs = [])"
proof -
  have b: "\<bar>sint (hw_in32 h tr (PL BBA_XOFF_REG))\<bar> \<le> 1000000000" "\<bar>sint (hw_in32 h tr (PL BBA_YOFF_REG))\<bar> \<le> 1000000000" for tr
    using assms(1) by (simp_all add: in_range_def)
  have msg: "ends h (case position_msg kx ky s cnt ns ts (hw_in32 h tr (PL BBA_XOFF_REG)) (hw_in32 h tr' (PL BBA_YOFF_REG)) of
       None \<Rightarrow> ret False | Some msg \<Rightarrow> do { psc_send_msg 31 msg; ret True })
     (\<lambda>ok evs. ok \<and> outs evs = [Inl 31] \<and> trig_reads evs = [])" for cnt ns ts tr tr'
    using position_msg_Some[OF assms(2-4) b(1)[of tr] b(2)[of tr'], of cnt ns ts]
    by (auto intro!: ends_intros)
  show ?thesis
    unfolding send_position_def
    by (intro ends_intros, rule ends_weaken[OF msg]) simp
qed

lemma ends_send_ADC_dma:
  "ends h (send_ADC_dma samples n) (\<lambda>s evs. length s = length samples \<and> outs evs = [Inl 53] \<and> trig_reads evs = [])"
  unfolding send_ADC_dma_def Let_def by (intro ends_intros) simp

text \<open>Serving one trigger, one turn, and any number of turns.\<close>

definition served :: "adcmsg list option \<Rightarrow> event list \<Rightarrow> bool" where
  "served r evs \<longleftrightarrow> (\<exists>buf. r = Some buf \<and> length buf = ADC_DMA_MAX_LEN)
     \<and> outs evs = trigger_outs \<and> trig_reads evs = []"

lemma ends_serve_tail:
  assumes "in_range h" "unit_gains g" "n \<le> length raw" "length raw = ADC_DMA_MAX_LEN"
    "uint bd \<le> 1000000000" "uint kx \<le> 1000000000" "uint ky \<le> 1000000000"
  shows "ends h (case process raw n g bd of None \<Rightarrow> ret None | Some (scaled, mags) \<Rightarrow> do {
      swapped \<leftarrow> send_ADC_dma scaled n;
      ok \<leftarrow> send_position kx ky mags;
      if ok then do { finish_trigger; ret (Some swapped) } else ret None }) served"
proof -
  obtain scaled mags where p: "process raw n g bd = Some (scaled, mags)" and l: "length scaled = length raw"
    using process_Some[of g n raw bd] assms by auto
  have fin: "ends h (do { finish_trigger; ret (Some sw) })
      (\<lambda>r evs. r = Some sw \<and> outs evs = drop 2 trigger_outs \<and> trig_reads evs = [])" for sw :: "adcmsg list"
    by (intro ends_bind, rule ends_weaken[OF ends_finish_trigger], intro ends_ret) (simp add: trigger_outs_def)
  have pos: "ends h (send_position kx ky mags \<bind> (\<lambda>ok. if ok then do { finish_trigger; ret (Some sw) } else ret None))
      (\<lambda>r evs. r = Some sw \<and> outs evs = tl trigger_outs \<and> trig_reads evs = [])" for sw :: "adcmsg list"
    by (intro ends_bind, rule ends_weaken[OF ends_send_position[OF assms(1) process_good_sums[OF p] assms(6,7)]])
      (simp, rule ends_weaken[OF fin], simp add: trigger_outs_def)
  show ?thesis
    unfolding p option.case prod.case
    by (intro ends_bind, rule ends_weaken[OF ends_send_ADC_dma], rule ends_weaken[OF pos])
      (simp add: served_def l assms(4) trigger_outs_def)
qed

lemma ends_serve_trigger:
  assumes "in_range h" "length buf = ADC_DMA_MAX_LEN"
  shows "ends h (serve_trigger buf) served"
proof -
  have r: "unat (hw_in32 h tr (PL DMA_ADCBURSTLEN_REG)) \<le> length buf"
    "uint (hw_in32 h tr (PL KX_REG)) \<le> 1000000000" "uint (hw_in32 h tr (PL KY_REG)) \<le> 1000000000"
    "uint (hw_in32 h tr (PL TRIGTOBEAM_DLY_REG)) \<le> 1000000000" for tr
    using assms by (simp_all add: in_range_def)
  show ?thesis
    unfolding serve_trigger_def
    apply (intro ends_bind ends_in32)
    apply (rule ends_weaken[OF ends_read_gains[OF assms(1)]])
    apply (intro ends_bind ends_in32 ends_read_ddr)
    apply (simp add: read_ADC_dma_def r del: One_nat_def)
    apply (intro ends_bind ends_in32)
    apply (rule ends_weaken[OF ends_serve_tail])
    using assms r by (auto simp: served_def)
qed

text \<open>The values at which a counter, last seen at \<open>p\<close>, is seen to have moved.\<close>

fun changes :: "u32 \<Rightarrow> u32 list \<Rightarrow> u32 list" where
  "changes p [] = []"
| "changes p (v # vs) = (if v \<noteq> p then v # changes v vs else changes p vs)"

definition turned :: "nat \<Rightarrow> u32 \<Rightarrow> (u32 \<times> adcmsg list) option \<Rightarrow> event list \<Rightarrow> bool" where
  "turned n prev r evs \<longleftrightarrow>
     (\<exists>buf. r = Some (last (prev # trig_reads evs), buf) \<and> length buf = ADC_DMA_MAX_LEN)
     \<and> length (trig_reads evs) = n
     \<and> outs evs = concat (replicate (length (changes prev (trig_reads evs))) trigger_outs)"

lemma ends_turn:
  assumes "in_range h" "length buf = ADC_DMA_MAX_LEN"
  shows "ends h (dmadata_turn (prev, buf)) (turned 1 prev)"
proof -
  have serve: "ends h (serve_trigger buf \<bind> (\<lambda>r. ret (map_option (Pair v) r)))
      (\<lambda>r evs. (\<exists>buf. r = Some (v, buf) \<and> length buf = ADC_DMA_MAX_LEN) \<and> outs evs = trigger_outs \<and> trig_reads evs = [])" for v
    by (intro ends_bind, rule ends_weaken[OF ends_serve_trigger[OF assms]], intro ends_ret)
      (auto simp: served_def)
  show ?thesis
    unfolding dmadata_turn_def prod.case
    apply (intro ends_bind ends_delay ends_in32)
    subgoal for tr
      apply (cases "hw_in32 h tr (PL DMA_TRIGCNT_REG) = prev")
       apply (simp_all only: simp_thms if_True if_False)
       apply (intro ends_ret)
       apply (simp add: turned_def assms)
      apply (rule ends_weaken[OF serve])
      apply (auto simp: turned_def)
      done
    done
qed

lemma changes_Cons: "concat (replicate (length (changes p (v # vs))) xs) =
    (if v \<noteq> p then xs else []) @ concat (replicate (length (changes v vs)) xs)"
  by simp

lemma turned_Suc:
  assumes "turned 1 prev (Some (p, buf)) es" "turned n p r fs"
  shows "turned (Suc n) prev r (es @ fs)"
proof -
  obtain v where v: "trig_reads es = [v]"
    using assms(1) by (cases "trig_reads es") (auto simp: turned_def)
  with assms(1) have "p = v" "outs es = concat (replicate (length (changes prev [v])) trigger_outs)"
    by (auto simp: turned_def)
  with assms(2) v show ?thesis by (auto simp: turned_def)
qed

lemma ends_turns:
  assumes "in_range h"
  shows "length buf = ADC_DMA_MAX_LEN \<Longrightarrow> ends h (dmadata_turns n (prev, buf)) (turned n prev)"
proof (induction n arbitrary: prev buf)
  case 0
  then show ?case by (auto intro!: ends_ret simp: turned_def)
next
  case (Suc n)
  show ?case
    unfolding dmadata_turns.simps
  proof (intro ends_bind, rule ends_weaken[OF ends_turn[OF assms Suc.prems]])
    fix r es
    assume t: "turned 1 prev r es"
    then obtain p buf' where r: "r = Some (p, buf')" and l: "length buf' = ADC_DMA_MAX_LEN"
      by (auto simp: turned_def)
    show "ends h (case r of None \<Rightarrow> ret None | Some st \<Rightarrow> dmadata_turns n st) (\<lambda>y fs. turned (Suc n) prev y (es @ fs))"
      unfolding r option.case
      by (rule ends_weaken[OF Suc.IH[OF l]]) (rule turned_Suc[OF t[unfolded r]])
  qed
qed

text \<open>Hardware whose settings are in range and whose trigger counter moves at every other event.\<close>

definition bpm_hw :: hw where
  "bpm_hw = storing_hw\<lparr>hw_in32 := \<lambda>tr p.
     if p = PL DMA_ADCBURSTLEN_REG then 1000
     else if p = PL DMA_TRIGCNT_REG then of_nat (length tr div 40)
     else 32767\<rparr>"

lemma bpm_hw_in_range: "in_range bpm_hw"
  by (simp add: in_range_def bpm_hw_def)

text \<open>
  Property C3 (liveness): with the settings in range the thread never stops: in any number of turns
  it reads the trigger counter once a turn, and each time it finds it moved it sends the samples
  and then the position, releases the trigger latch and re-arms the DMA engine, once and in that
  order; nothing else is sent or written.
\<close>

theorem triggers_served:
  assumes "in_range h"
    and evs: "evs = trace (snd (run_state (dmadata_push n) (start_world h)))"
  shows "fst (run_state (dmadata_push n) (start_world h)) \<noteq> None \<and> length (trig_reads evs) = n
    \<and> outs evs = arm_outs @ concat (replicate (length (changes 0 (trig_reads evs))) trigger_outs)"
proof -
  have "ends h (dmadata_push n) (\<lambda>r evs. r \<noteq> None \<and> length (trig_reads evs) = n
      \<and> outs evs = arm_outs @ concat (replicate (length (changes 0 (trig_reads evs))) trigger_outs))"
    unfolding dmadata_push_def
    apply (intro ends_bind)
    apply (rule ends_weaken[OF ends_dma_arm])
    apply (rule ends_weaken[OF ends_turns[OF assms(1) length_replicate]])
    apply (auto simp: turned_def)
    done
  from ends_start[OF this] show ?thesis unfolding evs .
qed

theorem triggers_served_witness:
  "length (trig_reads (trace (snd (run_state (dmadata_push 3) (start_world bpm_hw))))) = 3"
  using triggers_served[OF bpm_hw_in_range refl, of 3] by blast

section \<open>What is sent\<close>

fun send_ev :: "event \<Rightarrow> (u16 \<times> u8 list) list" where
  "send_ev (PscSend i b) = [(i, b)]"
| "send_ev _ = []"

definition sends :: "event list \<Rightarrow> (u16 \<times> u8 list) list" where
  "sends evs = concat (map send_ev evs)"

lemma sends_simps [simp]: "sends [] = []" "sends (e # es) = send_ev e @ sends es" "sends (es @ fs) = sends es @ sends fs"
  by (simp_all add: sends_def)

text \<open>A sample on the wire is the two words it was read from, in network order.\<close>

lemma half_bytes:
  "be16 (ucast (drop_bit 16 (r :: u32) AND 0xFFFF)) @ be16 (ucast (r AND 0xFFFF)) = be32 r"
  unfolding be16_def be32_def le16_def le32_def
  by (simp, intro conjI; rule bit_word_eqI) (auto simp: bit_simps bit_byte_masks)

lemma sample_wire: "sample_bytes (swap_sample (adc_sample r0 r1)) = be32 r0 @ be32 r1"
  using half_bytes[of r0] half_bytes[of r1]
  by (simp add: sample_bytes_def swap_sample_def adc_sample_def le16_htons)

lemma samples_wire:
  "concat (map (sample_bytes \<circ> swap_sample) (map (\<lambda>i. adc_sample (ddr (2 * i)) (ddr (2 * i + 1))) [0..<n]))
   = concat (map (be32 \<circ> ddr) [0..<2 * n])"
  by (induction n) (simp_all add: sample_wire)

lemma those_map_id: "(\<And>x. x \<in> set xs \<Longrightarrow> f x = Some x) \<Longrightarrow> those (map f xs) = Some xs"
  by (induction xs) auto

lemma scale_unity: "scale_ADC_data buf n (four 1 1 1 1) = Some buf"
  by (simp add: scale_ADC_data_def those_map_id scale_sample_def scale_value_unity)

text \<open>Hardware whose registers and memory do not change while a trigger is served.\<close>

definition fixed_hw :: "(nat \<Rightarrow> u32) \<Rightarrow> (nat \<Rightarrow> u32) \<Rightarrow> hw" where
  "fixed_hw R ddr = storing_hw\<lparr>hw_in32 := \<lambda>_ p. case p of PL r \<Rightarrow> R r | AXI_DMA_ADC r \<Rightarrow> 0, hw_ddr := \<lambda>_. ddr\<rparr>"

lemma fixed_hw_simps [simp]: "hw_in32 (fixed_hw R ddr) tr (PL r) = R r" "hw_ddr (fixed_hw R ddr) tr = ddr"
  by (simp_all add: fixed_hw_def)

lemma ends_finish_silent: "ends h finish_trigger (\<lambda>_ evs. sends evs = [])"
  unfolding finish_trigger_def dma_arm_def by (intro ends_intros) simp

lemma ends_serve_fixed:
  assumes "n = unat (R DMA_ADCBURSTLEN_REG)" "n \<le> length buf"
    and p: "process (map (\<lambda>i. adc_sample (ddr (2 * i)) (ddr (2 * i + 1))) [0..<n] @ drop n buf) n
        (four (gain_of (R CHA_GAIN_REG)) (gain_of (R CHB_GAIN_REG)) (gain_of (R CHC_GAIN_REG)) (gain_of (R CHD_GAIN_REG)))
        (R TRIGTOBEAM_DLY_REG) = Some (scaled, mags)"
    and m: "position_msg (R KX_REG) (R KY_REG) mags (R SA_TRIGNUM_REG) (R EVR_TS_NS_REG) (R EVR_TS_S_REG)
        (R BBA_XOFF_REG) (R BBA_YOFF_REG) = Some m"
  shows "ends (fixed_hw R ddr) (serve_trigger buf)
    (\<lambda>_ evs. sends evs = [(53, concat (map (sample_bytes \<circ> swap_sample) (take n scaled))), (31, m)])"
  unfolding serve_trigger_def read_gains_def
  apply (intro ends_bind ends_in32 ends_ret ends_read_ddr)
  apply (simp add: read_ADC_dma_def assms(1)[symmetric] assms(2) del: One_nat_def)
  apply (intro ends_bind ends_in32)
  apply (simp add: p send_ADC_dma_def send_position_def Let_def del: One_nat_def)
  apply (intro ends_bind ends_in32 ends_ret ends_psc_send_msg)
  apply (simp add: m del: One_nat_def)
  apply (intro ends_bind ends_in32 ends_ret ends_psc_send_msg)
  apply simp
  apply (intro ends_bind, rule ends_weaken[OF ends_finish_silent], intro ends_ret)
  apply (simp add: assms(1))
  done

text \<open>With all gains at one the samples are sent as they were taken.\<close>

definition unity :: "(nat \<Rightarrow> u32) \<Rightarrow> bool" where
  "unity R \<longleftrightarrow> R CHA_GAIN_REG = 32767 \<and> R CHB_GAIN_REG = 32767 \<and> R CHC_GAIN_REG = 32767 \<and> R CHD_GAIN_REG = 32767"

text \<open>The computed part of the position message: the sums of the channels, their sum, the position.\<close>

definition position_fields :: "u32 \<Rightarrow> u32 \<Rightarrow> rat channels \<Rightarrow> u32 \<Rightarrow> u32 \<Rightarrow> u32 list option" where
  "position_fields kx ky s bx by = those [to_u32 (cha s), to_u32 (chb s), to_u32 (chc s), to_u32 (chd s), to_u32 (sum4 s),
     to_s32 (f32 (xpos kx s - f32 (of_int (sint bx)))), to_s32 (f32 (ypos ky s - f32 (of_int (sint by))))]"

lemma position_msg_fields:
  "position_msg kx ky s cnt ns ts bx by = map_option (\<lambda>vs. concat (map be32 ([cnt, ns, ts] @ vs))) (position_fields kx ky s bx by)"
  unfolding position_msg_def position_fields_def by (simp add: comp_def le32_htonl split: option.split)

definition raw_samples :: "(nat \<Rightarrow> u32) \<Rightarrow> nat \<Rightarrow> adcmsg list" where
  "raw_samples ddr n = map (\<lambda>i. adc_sample (ddr (2 * i)) (ddr (2 * i + 1))) [0..<n]"

definition window_sums :: "adcmsg list \<Rightarrow> rat channels" where
  "window_sums s = four (window_sum cha s) (window_sum chb s) (window_sum chc s) (window_sum chd s)"

lemma take_append_raw: "take n (raw_samples ddr n @ xs) = raw_samples ddr n"
  by (simp add: raw_samples_def)

text \<open>
  Property C5 (functional): with all gains at one, the first message of a trigger is the DMA buffer
  itself in network order, as many samples as the length register says; the second starts with the
  counter and the time, followed by the sums over samples 50 to 299 and the position computed from
  them.
\<close>

theorem trigger_messages:
  assumes "env w = fixed_hw R ddr" "in_range (fixed_hw R ddr)" "unity R" "length buf = ADC_DMA_MAX_LEN"
    and n: "n = unat (R DMA_ADCBURSTLEN_REG)"
  shows "\<exists>vs. position_fields (R KX_REG) (R KY_REG) (window_sums (raw_samples ddr n @ drop n buf)) (R BBA_XOFF_REG) (R BBA_YOFF_REG) = Some vs
    \<and> sends (events_of (serve_trigger buf) w) =
       [(53, concat (map (be32 \<circ> ddr) [0..<2 * n])),
        (31, concat (map be32 ([R SA_TRIGNUM_REG, R EVR_TS_NS_REG, R EVR_TS_S_REG] @ vs)))]"
proof -
  let ?raw = "raw_samples ddr n @ drop n buf"
  let ?g = "four (gain_of (R CHA_GAIN_REG)) (gain_of (R CHB_GAIN_REG)) (gain_of (R CHC_GAIN_REG)) (gain_of (R CHD_GAIN_REG))"
  have r: "n \<le> length buf" "uint (R TRIGTOBEAM_DLY_REG) \<le> 1000000000"
    "uint (R KX_REG) \<le> 1000000000" "uint (R KY_REG) \<le> 1000000000"
    "\<bar>sint (R BBA_XOFF_REG)\<bar> \<le> 1000000000" "\<bar>sint (R BBA_YOFF_REG)\<bar> \<le> 1000000000"
    using assms(2,4) n by (simp_all add: in_range_def)
  have g: "?g = four 1 1 1 1" using assms(3) by (simp add: unity_def gain_of_unity)
  have l: "length ?raw = length buf" using r by (simp add: raw_samples_def)
  obtain scaled mags where p: "process ?raw n ?g (R TRIGTOBEAM_DLY_REG) = Some (scaled, mags)"
    using process_Some[of ?g n ?raw "R TRIGTOBEAM_DLY_REG"] r(1,2) l assms(4) by (auto simp: g unit_gains_def)
  from process_result[OF p] have s: "scaled = ?raw" and mg: "mags = window_sums ?raw"
    by (auto simp: g scale_unity window_sums_def)
  obtain m where m: "position_msg (R KX_REG) (R KY_REG) mags (R SA_TRIGNUM_REG) (R EVR_TS_NS_REG) (R EVR_TS_S_REG)
      (R BBA_XOFF_REG) (R BBA_YOFF_REG) = Some m"
    using position_msg_Some[OF process_good_sums[OF p] r(3-6)] by metis
  then obtain vs where vs: "position_fields (R KX_REG) (R KY_REG) mags (R BBA_XOFF_REG) (R BBA_YOFF_REG) = Some vs"
    and mvs: "m = concat (map be32 ([R SA_TRIGNUM_REG, R EVR_TS_NS_REG, R EVR_TS_S_REG] @ vs))"
    unfolding position_msg_fields by auto
  obtain x evs where x: "run_state (serve_trigger buf) w = (x, w\<lparr>trace := trace w @ evs\<rparr>)"
    and e: "sends evs = [(53, concat (map (sample_bytes \<circ> swap_sample) (take n scaled))), (31, m)]"
    using ends_run[OF ends_serve_fixed[OF n r(1) p[unfolded raw_samples_def] m] assms(1)] by blast
  have "events_of (serve_trigger buf) w = evs" using x by (simp add: events_of_eq)
  with e[unfolded s take_append_raw, unfolded raw_samples_def samples_wire]
  have "sends (events_of (serve_trigger buf) w) = [(53, concat (map (be32 \<circ> ddr) [0..<2 * n])), (31, m)]"
    by simp
  with vs mvs show ?thesis unfolding mg by blast
qed

definition quiet_regs :: "nat \<Rightarrow> u32" where
  "quiet_regs r = (if r = DMA_ADCBURSTLEN_REG then 1000 else 32767)"

theorem trigger_messages_witness:
  "\<exists>vs. sends (events_of (serve_trigger (replicate ADC_DMA_MAX_LEN (four 0 0 0 0)))
       (start_world (fixed_hw quiet_regs (\<lambda>_. 0x0102FFFE))))
     = [(53, concat (map (be32 \<circ> (\<lambda>_. 0x0102FFFE)) [0..<2 * 1000])), (31, concat (map be32 ([32767, 32767, 32767] @ vs)))]"
proof -
  have h: "in_range (fixed_hw quiet_regs (\<lambda>_. 0x0102FFFE))" "unity quiet_regs"
    by (simp_all add: in_range_def fixed_hw_def quiet_regs_def unity_def)
  have n: "unat (quiet_regs DMA_ADCBURSTLEN_REG) = 1000" by (simp add: quiet_regs_def)
  show ?thesis
    using trigger_messages[OF start_world_simps(1) h length_replicate refl, unfolded n]
    by (auto simp: quiet_regs_def simp del: upt_rec_numeral)
qed


end
