(* ===== verification/Telemetry.thy ===== *)
theory Telemetry imports Dma_Data Device_Init begin

text \<open>
  The threads that report registers to the clients: general settings and status (\<^verbatim>\<open>gendata.c\<close>), the
  10 Hz position (\<^verbatim>\<open>sadata.c\<close>), live ADC and turn-by-turn data (\<^verbatim>\<open>livedata.c\<close>) and the thermistors
  (\<^verbatim>\<open>thermistors.c\<close>). \<open>on_startup\<close> does not start the second and the third.
\<close>

declare of_int_sint [simp del] of_int_uint [simp del]

section \<open>General data\<close>

text \<open>The message, with the fields in memory order; it is static and zero before the first turn.\<close>

record gen_msg =
  pll_locked :: u32
  cha_gain :: u32
  chb_gain :: u32
  chc_gain :: u32
  chd_gain :: u32
  rf_atten :: u32
  kx :: u32
  ky :: u32
  bba_xoff :: u32
  bba_yoff :: u32
  evr_ts_s_triglat :: u32
  evr_ts_ns_triglat :: u32
  trig_eventno :: u32
  trig_dmacnt :: u32
  fine_trig_dly :: u32
  coarse_trig_dly :: u32
  trigtobeam_thresh :: u32
  trigtobeam_dly :: u32
  dma_adclen :: u32
  dma_tbtlen :: u32
  dma_falen :: u32
  dma_adc_active :: u32
  dma_tbt_active :: u32
  dma_fa_active :: u32
  dma_tx_active :: u32

definition gen_bytes :: "gen_msg \<Rightarrow> u8 list" where
  "gen_bytes m = concat (map le32 [pll_locked m, cha_gain m, chb_gain m, chc_gain m, chd_gain m, rf_atten m,
     kx m, ky m, bba_xoff m, bba_yoff m, evr_ts_s_triglat m, evr_ts_ns_triglat m, trig_eventno m,
     trig_dmacnt m, fine_trig_dly m, coarse_trig_dly m, trigtobeam_thresh m, trigtobeam_dly m,
     dma_adclen m, dma_tbtlen m, dma_falen m, dma_adc_active m, dma_tbt_active m, dma_fa_active m,
     dma_tx_active m])"

text \<open>The registers in the order they are read; \<open>None\<close> when the beam delay does not fit an \<open>int\<close>.\<close>

definition gendata_turn :: "gen_msg \<Rightarrow> gen_msg option io" where
  "gendata_turn m = do {
     vTaskDelay 100;
     ga \<leftarrow> Xil_In32 (PL CHA_GAIN_REG);
     gb \<leftarrow> Xil_In32 (PL CHB_GAIN_REG);
     gc \<leftarrow> Xil_In32 (PL CHC_GAIN_REG);
     gd \<leftarrow> Xil_In32 (PL CHD_GAIN_REG);
     pll \<leftarrow> Xil_In32 (PL PLL_LOCKED_REG);
     x \<leftarrow> Xil_In32 (PL KX_REG);
     y \<leftarrow> Xil_In32 (PL KY_REG);
     bx \<leftarrow> Xil_In32 (PL BBA_XOFF_REG);
     by \<leftarrow> Xil_In32 (PL BBA_YOFF_REG);
     dsa \<leftarrow> Xil_In32 (PL RF_DSA_REG);
     coarse \<leftarrow> Xil_In32 (PL DMA_TRIG_DLY_REG);
     cnt \<leftarrow> Xil_In32 (PL DMA_TRIGCNT_REG);
     adc \<leftarrow> Xil_In32 (PL DMA_ADCBURSTLEN_REG);
     tbt \<leftarrow> Xil_In32 (PL DMA_TBTBURSTLEN_REG);
     fa \<leftarrow> Xil_In32 (PL DMA_FABURSTLEN_REG);
     eventno \<leftarrow> Xil_In32 (PL EVR_DMA_TRIGNUM_REG);
     s \<leftarrow> Xil_In32 (PL EVR_TS_S_LAT_REG);
     ns \<leftarrow> Xil_In32 (PL EVR_TS_NS_LAT_REG);
     thresh \<leftarrow> Xil_In32 (PL TRIGTOBEAM_THRESH_REG);
     beamdly \<leftarrow> Xil_In32 (PL TRIGTOBEAM_DLY_REG);
     case scale_beamdly beamdly of None \<Rightarrow> ret None | Some dly \<Rightarrow> do {
       dmastatus \<leftarrow> Xil_In32 (PL DMA_STATUS_REG);
       let m' = m\<lparr>cha_gain := htonl ga, chb_gain := htonl gb, chc_gain := htonl gc, chd_gain := htonl gd,
         pll_locked := htonl pll, kx := htonl x, ky := htonl y, bba_xoff := htonl bx, bba_yoff := htonl by,
         rf_atten := htonl (dsa div 4), coarse_trig_dly := htonl coarse, trig_dmacnt := htonl cnt,
         dma_adclen := htonl adc, dma_tbtlen := htonl tbt, dma_falen := htonl fa,
         trig_eventno := htonl eventno, evr_ts_s_triglat := htonl s, evr_ts_ns_triglat := htonl ns,
         trigtobeam_thresh := htonl thresh, trigtobeam_dly := htonl dly,
         dma_adc_active := htonl (drop_bit 4 (dmastatus AND 0x10)),
         dma_tbt_active := htonl (drop_bit 3 (dmastatus AND 0x8)),
         dma_fa_active := htonl (drop_bit 2 (dmastatus AND 0x4)),
         dma_tx_active := htonl (drop_bit 1 (dmastatus AND 0x2))\<rparr>;
       psc_send_msg 30 (gen_bytes m');
       ret (Some m')
     }
   }"

section \<open>10 Hz position\<close>

text \<open>Waiting for the counter to move, for at most \<open>n\<close> polls: \<open>None\<close> when it did not.\<close>

fun sa_wait :: "nat \<Rightarrow> u32 \<Rightarrow> u32 option io" where
  "sa_wait 0 prev = ret None"
| "sa_wait (Suc n) prev = do {
     sa_cnt \<leftarrow> Xil_In32 (PL SA_TRIGNUM_REG);
     vTaskDelay 10;
     if prev = sa_cnt then sa_wait n prev else ret (Some sa_cnt)
   }"

fun read_all :: "nat list \<Rightarrow> u32 list io" where
  "read_all [] = ret []"
| "read_all (r # rs) = do { v \<leftarrow> Xil_In32 (PL r); vs \<leftarrow> read_all rs; ret (v # vs) }"

text \<open>The fields are filled in memory order, so the message is the list of the values read.\<close>

definition sadata_turn :: "nat \<Rightarrow> u32 \<Rightarrow> u32 option io" where
  "sadata_turn n sa_cnt_prev = do {
     r \<leftarrow> sa_wait n sa_cnt_prev;
     case r of None \<Rightarrow> ret None | Some sa_cnt \<Rightarrow> do {
       vs \<leftarrow> read_all [SA_TRIGNUM_REG, EVR_TS_NS_REG, EVR_TS_S_REG, SA_CHA_REG, SA_CHB_REG, SA_CHC_REG,
         SA_CHD_REG, SA_SUM_REG, SA_XPOS_REG, SA_YPOS_REG];
       psc_send_msg 31 (concat (map (le32 \<circ> htonl) vs));
       ret (Some sa_cnt)
     }
   }"

section \<open>Live data\<close>

fun collect :: "nat \<Rightarrow> 'a io \<Rightarrow> 'a list io" where
  "collect 0 m = ret []"
| "collect (Suc n) m = do { x \<leftarrow> m; xs \<leftarrow> collect n m; ret (x # xs) }"

text \<open>Two words of the FIFO: channels D and C, then B and A.\<close>

definition live_adc :: "adcmsg io" where
  "live_adc = do {
     r0 \<leftarrow> Xil_In32 (PL ADCFIFO_DATA_REG);
     r1 \<leftarrow> Xil_In32 (PL ADCFIFO_DATA_REG);
     ret (four (htons (ucast (r1 AND 0xFFFF))) (htons (ucast (drop_bit 16 (r1 AND 0xFFFF0000))))
       (htons (ucast (r0 AND 0xFFFF))) (htons (ucast (drop_bit 16 (r0 AND 0xFFFF0000)))))
   }"

definition live_tbt :: "(u32 \<times> u32) io" where
  "live_tbt = do {
     x \<leftarrow> Xil_In32 (PL TBTFIFO_DATA_REG);
     y \<leftarrow> Xil_In32 (PL TBTFIFO_DATA_REG);
     ret (htonl x, htonl y)
   }"

definition livedata_turn :: "unit io" where
  "livedata_turn = do {
     vTaskDelay 1000;
     Xil_Out32 (PL ADCFIFO_STREAMENB_REG) 1;
     Xil_Out32 (PL TBTFIFO_STREAMENB_REG) 1;
     vTaskDelay 10;
     adcmsg \<leftarrow> collect 8000 live_adc;
     Xil_Out32 (PL ADCFIFO_RST_REG) 1;
     vTaskDelay 1;
     Xil_Out32 (PL ADCFIFO_RST_REG) 0;
     psc_send_msg 51 (concat (map sample_bytes adcmsg));
     tbtmsg \<leftarrow> collect 8000 live_tbt;
     Xil_Out32 (PL TBTFIFO_RST_REG) 1;
     vTaskDelay 1;
     Xil_Out32 (PL TBTFIFO_RST_REG) 0;
     psc_send_msg 52 (concat (map (\<lambda>(x, y). le32 x @ le32 y) tbtmsg))
   }"

section \<open>Thermistors\<close>

definition thermistors_setup :: "unit io" where
  "thermistors_setup = do { setup_thermistors 0; setup_thermistors 1; setup_thermistors 2 }"

definition thermistors_turn :: "unit io" where
  "thermistors_turn = do {
     vTaskDelay 1;
     (fe_a, fe_b) \<leftarrow> read_thermistors 0;
     (fe_c, fe_d) \<leftarrow> read_thermistors 1;
     (adc_ab, adc_cd) \<leftarrow> read_thermistors 2;
     psc_send_msg 33 (concat (map (le32 \<circ> htonf) [fe_a, fe_b, fe_c, fe_d, adc_ab, adc_cd]))
   }"

section \<open>What the messages hold\<close>

text \<open>The values a stretch of a run read from a port.\<close>

fun rd_ev :: "port \<Rightarrow> event \<Rightarrow> u32 list" where
  "rd_ev p (Rd32 q v) = (if q = p then [v] else [])"
| "rd_ev p _ = []"

definition reads_of :: "port \<Rightarrow> event list \<Rightarrow> u32 list" where
  "reads_of p evs = concat (map (rd_ev p) evs)"

lemma reads_of_simps [simp]:
  "reads_of p [] = []" "reads_of p (e # es) = rd_ev p e @ reads_of p es" "reads_of p (es @ fs) = reads_of p es @ reads_of p fs"
  by (simp_all add: reads_of_def)

text \<open>A message that is a list of network order words has the \<open>i\<close>-th at offset \<open>4 * i\<close>.\<close>

definition at_offset :: "u8 list \<Rightarrow> nat \<times> u32 \<Rightarrow> bool" where
  "at_offset body = (\<lambda>(off, v). un_be32 (take 4 (drop off body)) = Some v)"

lemma fields_at_offsets:
  assumes "fs = zip (map ((*) 4) [0..<length vs]) vs"
  shows "list_all (at_offset (concat (map be32 vs))) fs"
  unfolding assms list_all_length at_offset_def
  using be32.array_element by auto

definition gen_fields :: "event list \<Rightarrow> gen_msg \<Rightarrow> u32 \<Rightarrow> (nat \<times> u32) list" where
  "gen_fields evs m dly = (let rd = (\<lambda>r. hd (reads_of (PL r) evs)); st = rd DMA_STATUS_REG in
    [(0, rd PLL_LOCKED_REG), (4, rd CHA_GAIN_REG), (8, rd CHB_GAIN_REG), (12, rd CHC_GAIN_REG),
     (16, rd CHD_GAIN_REG), (20, rd RF_DSA_REG div 4), (24, rd KX_REG), (28, rd KY_REG),
     (32, rd BBA_XOFF_REG), (36, rd BBA_YOFF_REG), (40, rd EVR_TS_S_LAT_REG), (44, rd EVR_TS_NS_LAT_REG),
     (48, rd EVR_DMA_TRIGNUM_REG), (52, rd DMA_TRIGCNT_REG), (56, htonl (fine_trig_dly m)),
     (60, rd DMA_TRIG_DLY_REG), (64, rd TRIGTOBEAM_THRESH_REG), (68, dly), (72, rd DMA_ADCBURSTLEN_REG),
     (76, rd DMA_TBTBURSTLEN_REG), (80, rd DMA_FABURSTLEN_REG), (84, of_bool (bit st 4)),
     (88, of_bool (bit st 3)), (92, of_bool (bit st 2)), (96, of_bool (bit st 1))])"

lemma drop_bit_and_1: "drop_bit n (w :: u32) AND 1 = of_bool (bit w n)"
  by (rule bit_word_eqI) (auto simp: bit_simps)

lemma gen_bytes_be32:
  "gen_bytes m = concat (map be32 (map htonl [pll_locked m, cha_gain m, chb_gain m, chc_gain m, chd_gain m, rf_atten m,
     kx m, ky m, bba_xoff m, bba_yoff m, evr_ts_s_triglat m, evr_ts_ns_triglat m, trig_eventno m,
     trig_dmacnt m, fine_trig_dly m, coarse_trig_dly m, trigtobeam_thresh m, trigtobeam_dly m,
     dma_adclen m, dma_tbtlen m, dma_falen m, dma_adc_active m, dma_tbt_active m, dma_fa_active m,
     dma_tx_active m]))"
proof -
  have "be32 (htonl w) = le32 w" for w using le32_htonl[of "htonl w"] by simp
  then show ?thesis by (simp add: gen_bytes_def)
qed

definition gen_outcome :: "gen_msg \<Rightarrow> gen_msg option \<Rightarrow> event list \<Rightarrow> bool" where
  "gen_outcome m r evs \<longleftrightarrow> (case r of
     None \<Rightarrow> sends evs = [] \<and> scale_beamdly (hd (reads_of (PL TRIGTOBEAM_DLY_REG) evs)) = None
   | Some m' \<Rightarrow> fine_trig_dly m' = fine_trig_dly m \<and>
     (\<exists>body dly. sends evs = [(30, body)] \<and> length body = 100
        \<and> scale_beamdly (hd (reads_of (PL TRIGTOBEAM_DLY_REG) evs)) = Some dly
        \<and> list_all (at_offset body) (gen_fields evs m dly)))"

lemma ends_gendata: "ends h (gendata_turn m) (gen_outcome m)"
proof -
  have split: "ends h (case scale_beamdly d of None \<Rightarrow> ret None | Some dly \<Rightarrow> f dly) Q"
    if "scale_beamdly d = None \<Longrightarrow> Q None []" "\<And>dly. scale_beamdly d = Some dly \<Longrightarrow> ends h (f dly) Q"
    for d and f :: "u32 \<Rightarrow> gen_msg option io" and Q
    using that by (cases "scale_beamdly d") (auto intro: ends_ret)
  show ?thesis
    unfolding gendata_turn_def Let_def
    apply (intro ends_bind ends_in32 ends_delay split ends_ret ends_psc_send_msg)
     apply (simp add: gen_outcome_def)
    apply (simp add: gen_outcome_def)
    apply (rule conjI)
     apply (simp add: gen_bytes_def)
    apply (simp only: gen_bytes_be32)
    apply (rule fields_at_offsets)
    apply (simp add: gen_fields_def Let_def drop_bit_and_1 upt_rec)
    done
qed

text \<open>Loops that collect values: what holds of one turn and can be extended by it holds of all.\<close>

lemma ends_collect:
  assumes "P [] []" "ends h m (\<lambda>x es. \<forall>xs fs. P xs fs \<longrightarrow> P (x # xs) (es @ fs))"
  shows "ends h (collect n m) (\<lambda>xs es. length xs = n \<and> P xs es)"
proof (induction n)
  case 0
  then show ?case using assms(1) by (auto intro: ends_ret)
next
  case (Suc n)
  show ?case
    unfolding collect.simps
    by (intro ends_bind, rule ends_weaken[OF assms(2)], intro ends_bind, rule ends_weaken[OF Suc], intro ends_ret) auto
qed

text \<open>The live samples on the wire: each pair of FIFO words, its channels in the order A to D.\<close>

fun live_wire :: "u32 list \<Rightarrow> u16 list" where
  "live_wire (dc # ba # ws) = ucast ba # ucast (drop_bit 16 ba) # ucast dc # ucast (drop_bit 16 dc) # live_wire ws"
| "live_wire _ = []"

lemma u32_halves:
  "ucast (r AND 0xFFFF) = (ucast (r :: u32) :: u16)" "ucast (drop_bit 16 (r AND 0xFFFF0000)) = (ucast (drop_bit 16 r) :: u16)"
proof -
  have m: "(0xFFFF0000 :: int) = push_bit 16 (mask 16)" by (simp add: mask_eq_exp_minus_1)
  have b: "bit (0xFFFF0000 :: int) n \<longleftrightarrow> 16 \<le> n \<and> n < 32" for n
    by (simp only: m bit_simps) auto
  show "ucast (r AND 0xFFFF) = (ucast r :: u16)"
    by (rule bit_word_eqI) (auto simp: bit_simps bit_byte_masks)
  show "ucast (drop_bit 16 (r AND 0xFFFF0000)) = (ucast (drop_bit 16 r) :: u16)"
    by (rule bit_word_eqI) (auto simp: bit_simps b bit_byte_masks)
qed

lemma live_wire_append: "even (length us) \<Longrightarrow> live_wire (us @ vs) = live_wire us @ live_wire vs"
  by (induction us rule: live_wire.induct) auto

lemma ends_live_adc:
  "ends h (collect n live_adc) (\<lambda>xs es. length xs = n \<and>
     (concat (map sample_bytes xs) = concat (map be16 (live_wire (reads_of (PL ADCFIFO_DATA_REG) es)))
      \<and> length (reads_of (PL ADCFIFO_DATA_REG) es) = 2 * length xs
      \<and> reads_of (PL TBTFIFO_DATA_REG) es = [] \<and> sends es = [] \<and> writes es = []))"
proof (rule ends_collect)
  show "ends h live_adc (\<lambda>x es. \<forall>xs fs. concat (map sample_bytes xs) = concat (map be16 (live_wire (reads_of (PL ADCFIFO_DATA_REG) fs)))
      \<and> length (reads_of (PL ADCFIFO_DATA_REG) fs) = 2 * length xs \<and> reads_of (PL TBTFIFO_DATA_REG) fs = [] \<and> sends fs = [] \<and> writes fs = [] \<longrightarrow>
      concat (map sample_bytes (x # xs)) = concat (map be16 (live_wire (reads_of (PL ADCFIFO_DATA_REG) (es @ fs))))
      \<and> length (reads_of (PL ADCFIFO_DATA_REG) (es @ fs)) = 2 * length (x # xs)
      \<and> reads_of (PL TBTFIFO_DATA_REG) (es @ fs) = [] \<and> sends (es @ fs) = [] \<and> writes (es @ fs) = [])"
    unfolding live_adc_def u32_halves
    by (intro ends_intros) (auto simp: sample_bytes_def le16_htons)
qed simp

lemma ends_live_tbt:
  "ends h (collect n live_tbt) (\<lambda>xs es. length xs = n \<and>
     (concat (map (\<lambda>(x, y). le32 x @ le32 y) xs) = concat (map be32 (reads_of (PL TBTFIFO_DATA_REG) es))
      \<and> length (reads_of (PL TBTFIFO_DATA_REG) es) = 2 * length xs
      \<and> reads_of (PL ADCFIFO_DATA_REG) es = [] \<and> sends es = [] \<and> writes es = []))"
proof (rule ends_collect)
  show "ends h live_tbt (\<lambda>x es. \<forall>xs fs. concat (map (\<lambda>(x, y). le32 x @ le32 y) xs) = concat (map be32 (reads_of (PL TBTFIFO_DATA_REG) fs))
      \<and> length (reads_of (PL TBTFIFO_DATA_REG) fs) = 2 * length xs \<and> reads_of (PL ADCFIFO_DATA_REG) fs = [] \<and> sends fs = [] \<and> writes fs = [] \<longrightarrow>
      concat (map (\<lambda>(x, y). le32 x @ le32 y) (x # xs)) = concat (map be32 (reads_of (PL TBTFIFO_DATA_REG) (es @ fs)))
      \<and> length (reads_of (PL TBTFIFO_DATA_REG) (es @ fs)) = 2 * length (x # xs)
      \<and> reads_of (PL ADCFIFO_DATA_REG) (es @ fs) = [] \<and> sends (es @ fs) = [] \<and> writes (es @ fs) = [])"
    unfolding live_tbt_def
    by (intro ends_intros) (auto simp: le32_htonl)
qed simp

text \<open>A turn of the live data thread reads 16000 words from each FIFO and sends all of them.\<close>

lemma livedata_messages:
  "ends h livedata_turn (\<lambda>_ evs.
     length (reads_of (PL ADCFIFO_DATA_REG) evs) = 16000 \<and> length (reads_of (PL TBTFIFO_DATA_REG) evs) = 16000
     \<and> sends evs = [(51, concat (map be16 (live_wire (reads_of (PL ADCFIFO_DATA_REG) evs)))),
                    (52, concat (map be32 (reads_of (PL TBTFIFO_DATA_REG) evs)))]
     \<and> writes evs = [(PL ADCFIFO_STREAMENB_REG, 1), (PL TBTFIFO_STREAMENB_REG, 1), (PL ADCFIFO_RST_REG, 1),
         (PL ADCFIFO_RST_REG, 0), (PL TBTFIFO_RST_REG, 1), (PL TBTFIFO_RST_REG, 0)])"
  unfolding livedata_turn_def
  apply (intro ends_bind ends_delay ends_out32)
  apply (rule ends_weaken[OF ends_live_adc])
  apply (intro ends_bind ends_delay ends_out32 ends_psc_send_msg)
  apply (rule ends_weaken[OF ends_live_tbt])
  apply (intro ends_bind ends_delay ends_out32 ends_psc_send_msg)
  apply simp
  done

text \<open>Waiting ends with the first poll that sees another value, which is at most the \<open>n\<close>-th.\<close>

lemma ends_sa_wait:
  "ends h (sa_wait n prev) (\<lambda>r evs. sends evs = [] \<and>
     (case r of None \<Rightarrow> reads_of (PL SA_TRIGNUM_REG) evs = replicate n prev
      | Some c \<Rightarrow> c \<noteq> prev \<and> (\<exists>k < n. reads_of (PL SA_TRIGNUM_REG) evs = replicate k prev @ [c])))"
proof (induction n)
  case 0
  then show ?case by (simp add: ends_ret)
next
  case (Suc n)
  have wait: "ends h (if prev = c then sa_wait n prev else ret (Some c))
     (\<lambda>r fs. sends fs = [] \<and> (case r of None \<Rightarrow> c # reads_of (PL SA_TRIGNUM_REG) fs = replicate (Suc n) prev
        | Some d \<Rightarrow> d \<noteq> prev \<and> (\<exists>k < Suc n. c # reads_of (PL SA_TRIGNUM_REG) fs = replicate k prev @ [d])))" for c
  proof (cases "prev = c")
    case True
    have "ends h (sa_wait n prev) (\<lambda>r fs. sends fs = [] \<and> (case r of None \<Rightarrow> c # reads_of (PL SA_TRIGNUM_REG) fs = replicate (Suc n) prev
        | Some d \<Rightarrow> d \<noteq> prev \<and> (\<exists>k < Suc n. c # reads_of (PL SA_TRIGNUM_REG) fs = replicate k prev @ [d])))"
      using True by (intro ends_weaken[OF Suc])
        (auto split: option.splits intro: exI[of _ "Suc k" for k])
    then show ?thesis using True by simp
  next
    case False
    then show ?thesis by (auto intro!: ends_ret exI[of _ 0])
  qed
  show ?case
    unfolding sa_wait.simps
    by (intro ends_bind ends_in32 ends_delay, rule ends_weaken[OF wait]) (auto split: option.splits)
qed

section \<open>Thermistors\<close>

lemma ends_setup_thermistors: "ends h (for_each xs (\<lambda>v. do { Xil_Out32 p v; usleep n })) (\<lambda>_ es. sends es = [])"
  by (induction xs) (auto intro!: ends_intros elim!: ends_weaken)

text \<open>The temperatures for the bytes of the results, lowest first, in sixteenths of sixty-fourths of a degree.\<close>

fun therm_values :: "u32 list \<Rightarrow> rat list" where
  "therm_values (a # b # c # ws) = of_int (uint a + uint b * 256 + uint c * 65536) / 1024 # therm_values ws"
| "therm_values _ = []"

definition byte_hw :: "hw \<Rightarrow> bool" where
  "byte_hw h \<longleftrightarrow> (\<forall>tr. unat (hw_in32 h tr (PL THERM_SPI_REG)) < 256)"

lemma sint_byte: "unat (v :: u32) < 256 \<Longrightarrow> sint v = uint v"
proof -
  assume "unat v < 256"
  moreover have "uint v = int (unat v)" by simp
  ultimately have "uint v < 256" by linarith
  then have "- 2147483648 \<le> uint v" "uint v < 2147483648" using uint_ge_0[of v] by linarith+
  then show ?thesis unfolding sint_uint by (intro signed_take_bit_int_eq_self) simp_all
qed

lemma therm_exact:
  assumes "unat (a :: u32) < 256" "unat (b :: u32) < 256" "unat (c :: u32) < 256"
  defines "v \<equiv> of_int (uint a + uint b * 256 + uint c * 65536) / 1024"
  shows "f32 (f32 (of_int (sint a + sint b * 256 + sint c * 65536)) / 1024) = v" "float_value (float_bits v) = v"
proof -
  define n where "n = uint a + uint b * 256 + uint c * 65536"
  have u: "uint x = int (unat x)" for x :: u32 by simp
  have "0 \<le> n" "n < 16777216" using assms(1-3) unfolding n_def u by linarith+
  then have n: "0 \<le> n" "n < 2 ^ 24" by simp_all
  have fv: "f32 (of_int n / 1024) = of_int n / 1024"
    using fround_value[of 24 n "- 10"] n by (simp add: f32_def)
  have fn: "f32 (of_int n) = of_int n" using n by (intro f32.rnd_int) simp
  show "f32 (f32 (of_int (sint a + sint b * 256 + sint c * 65536)) / 1024) = v"
    unfolding sint_byte[OF assms(1)] sint_byte[OF assms(2)] sint_byte[OF assms(3)] v_def
    unfolding n_def[symmetric] fn fv ..
  have "n = 0 \<or> 1 \<le> n" using n by linarith
  moreover have "1 / 1024 \<le> (of_int n / 1024 :: rat)" if "1 \<le> n" using that by simp
  moreover have "(2 :: rat) powi (- 126) \<le> 1 / 1024"
    using powi_le_iff[of "- 126" "- 10"] by simp
  moreover have "of_int n / 1024 < (2 :: rat) powi 128"
  proof -
    have "(of_int n :: rat) < of_int (2 ^ 24)" using n by (simp only: of_int_less_iff)
    then have "of_int n / 1024 < (2 :: rat) powi 24" using n by simp
    also have "(2 :: rat) powi 24 < 2 powi 128" by (simp only: powi_less_iff)
    finally show ?thesis .
  qed
  ultimately have "v = 0 \<or> 2 powi (- 126) \<le> \<bar>v\<bar> \<and> \<bar>v\<bar> < 2 powi 128"
    unfolding v_def n_def[symmetric] using n by force
  then show "float_value (float_bits v) = v"
    using fv unfolding v_def n_def[symmetric] by (intro float_value_bits)
qed

text \<open>One channel: its three reads and the value they stand for.\<close>

definition therm_read :: "u32 list \<Rightarrow> rat \<Rightarrow> bool" where
  "therm_read rs t \<longleftrightarrow> (\<exists>a b c. rs = [a, b, c] \<and> t = of_int (uint a + uint b * 256 + uint c * 65536) / 1024
     \<and> float_value (float_bits t) = t)"

lemma therm_read_ok:
  "unat a < 256 \<Longrightarrow> unat b < 256 \<Longrightarrow> unat c < 256 \<Longrightarrow>
     therm_read [a, b, c] (f32 (f32 (of_int (sint a + sint b * 256 + sint c * 65536)) / 1024))"
  by (simp only: therm_exact(1)) (use therm_exact(2) in \<open>unfold therm_read_def, blast\<close>)

lemma ends_therm_channel:
  assumes "byte_hw h"
  shows "ends h (therm_channel s r1 r2 r3) (\<lambda>t es. sends es = [] \<and> therm_read (reads_of (PL THERM_SPI_REG) es) t)"
  unfolding therm_channel_def therm_byte_def
  apply (intro ends_intros)
  using assms by (simp add: byte_hw_def therm_read_ok del: of_int_add of_int_mult)

lemma ends_read_thermistors:
  assumes "byte_hw h"
  shows "ends h (read_thermistors chip) (\<lambda>t es. sends es = [] \<and>
    (\<exists>rs1 rs2. reads_of (PL THERM_SPI_REG) es = rs1 @ rs2 \<and> therm_read rs1 (fst t) \<and> therm_read rs2 (snd t)))"
  unfolding read_thermistors_def
  apply (intro ends_bind ends_out32 ends_usleep)
  apply (rule ends_weaken[OF ends_therm_channel[OF assms]])
  apply (intro ends_bind)
  apply (rule ends_weaken[OF ends_therm_channel[OF assms]])
  apply (intro ends_ret)
  apply auto
  done

lemma therm_values_append: "therm_read rs t \<Longrightarrow> therm_values (rs @ ss) = t # therm_values ss"
  by (auto simp: therm_read_def)

text \<open>The six temperatures of a message, read as a client reads them.\<close>

definition float_fields :: "nat \<Rightarrow> u8 list \<Rightarrow> rat option list" where
  "float_fields n body = map (\<lambda>i. map_option float_value (un_be32 (take 4 (drop (4 * i) body)))) [0..<n]"

lemma float_fields_msg:
  "list_all (\<lambda>t. float_value (float_bits t) = t) ts \<Longrightarrow> n = length ts \<Longrightarrow>
     float_fields n (concat (map (le32 \<circ> htonf) ts)) = map Some ts"
proof -
  assume a: "list_all (\<lambda>t. float_value (float_bits t) = t) ts" and n: "n = length ts"
  have e: "map (le32 \<circ> htonf) ts = map be32 (map float_bits ts)" by (simp add: le32_htonf)
  show ?thesis
    unfolding float_fields_def e n
    using be32.array_element[of _ "map float_bits ts"] a
    by (auto intro!: nth_equalityI simp: list_all_length)
qed

lemma ends_thermistors_turn:
  assumes "byte_hw h"
  shows "ends h thermistors_turn (\<lambda>_ es. \<exists>body. sends es = [(33, body)] \<and> length body = 24
    \<and> float_fields 6 body = map Some (therm_values (reads_of (PL THERM_SPI_REG) es)))"
  unfolding thermistors_turn_def case_prod_beta
  apply (intro ends_bind ends_delay)
  apply (rule ends_weaken[OF ends_read_thermistors[OF assms]])
  apply (intro ends_bind)
  apply (rule ends_weaken[OF ends_read_thermistors[OF assms]])
  apply (intro ends_bind)
  apply (rule ends_weaken[OF ends_read_thermistors[OF assms]])
  apply (intro ends_psc_send_msg)
  apply (elim conjE exE)
  apply (simp only: reads_of_simps rd_ev.simps append_Nil append_Nil2 append_assoc sends_simps send_ev.simps therm_values_append)
  apply (intro exI conjI, rule refl)
   apply simp
  apply (subst float_fields_msg)
    apply (auto simp: therm_read_def)
  done

section \<open>Reads that tell the truth\<close>

text \<open>
  A program is truthful about a register that stores what is written to it when it does not write it and
  every read of it returns what it holds.
\<close>

definition truthful :: "port \<Rightarrow> 'a io \<Rightarrow> bool" where
  "truthful p m \<longleftrightarrow> (\<forall>w v. stores (env w) p \<longrightarrow> last_write (trace w) p = Some v \<longrightarrow>
     env (snd (run_state m w)) = env w \<and> (\<exists>es. trace (snd (run_state m w)) = trace w @ es
       \<and> last_write (trace w @ es) p = Some v \<and> set (reads_of p es) \<subseteq> {v}))"

lemma truthful_ret: "truthful p (ret x)"
  by (simp add: truthful_def)

lemma truthful_bind:
  assumes "truthful p m" "\<And>x. truthful p (f x)"
  shows "truthful p (m \<bind> f)"
  unfolding truthful_def
proof (intro allI impI)
  fix w :: world and v assume w: "stores (env w) p" "last_write (trace w) p = Some v"
  obtain x u where u: "run_state m w = (x, u)" by fastforce
  with assms(1) w obtain es where es: "env u = env w" "trace u = trace w @ es"
    "last_write (trace w @ es) p = Some v" "set (reads_of p es) \<subseteq> {v}"
    unfolding truthful_def by (metis snd_conv)
  with w have "stores (env u) p" "last_write (trace u) p = Some v" by simp_all
  with assms(2)[of x] obtain fs where "env (snd (run_state (f x) u)) = env u"
    "trace (snd (run_state (f x) u)) = trace u @ fs" "last_write (trace u @ fs) p = Some v" "set (reads_of p fs) \<subseteq> {v}"
    unfolding truthful_def by blast
  with es u show "env (snd (run_state (m \<bind> f) w)) = env w \<and>
      (\<exists>es. trace (snd (run_state (m \<bind> f) w)) = trace w @ es
        \<and> last_write (trace w @ es) p = Some v \<and> set (reads_of p es) \<subseteq> {v})"
    by (auto intro!: exI[of _ "es @ fs"])
qed

lemma truthful_prims:
  "truthful p (Xil_In32 q)" "truthful p (vTaskDelay n)" "truthful p (psc_send_msg i b)"
  by (auto simp: truthful_def io_simps last_write_append stores_def)

lemma truthful_option: "(\<And>x. truthful p (f x)) \<Longrightarrow> truthful p (case r of None \<Rightarrow> ret y | Some x \<Rightarrow> f x)"
  by (cases r) (simp_all add: truthful_ret)

lemma truthful_gendata: "truthful p (gendata_turn m)"
  unfolding gendata_turn_def Let_def
  by (intro truthful_bind truthful_prims truthful_option truthful_ret)

text \<open>The registers a client can set, with the offset at which the message reports them.\<close>

definition gen_reports :: "(nat \<times> nat) list" where
  "gen_reports = [(4, CHA_GAIN_REG), (8, CHB_GAIN_REG), (12, CHC_GAIN_REG), (16, CHD_GAIN_REG), (20, RF_DSA_REG),
     (24, KX_REG), (28, KY_REG), (32, BBA_XOFF_REG), (36, BBA_YOFF_REG), (48, EVR_DMA_TRIGNUM_REG),
     (60, DMA_TRIG_DLY_REG), (64, TRIGTOBEAM_THRESH_REG), (72, DMA_ADCBURSTLEN_REG),
     (76, DMA_TBTBURSTLEN_REG), (80, DMA_FABURSTLEN_REG)]"

definition shown :: "nat \<Rightarrow> u32 \<Rightarrow> u32" where
  "shown r v = (if r = RF_DSA_REG then v div 4 else v)"

lemma gendata_reads:
  assumes "\<And>tr. scale_beamdly (hw_in32 h tr (PL TRIGTOBEAM_DLY_REG)) \<noteq> None"
  shows "ends h (gendata_turn m) (\<lambda>x es. x \<noteq> None \<and> (\<forall>(off, r) \<in> set gen_reports. reads_of (PL r) es \<noteq> []))"
proof -
  have split: "ends h (case scale_beamdly (hw_in32 h tr (PL TRIGTOBEAM_DLY_REG)) of None \<Rightarrow> ret None | Some dly \<Rightarrow> f dly) Q"
    if "\<And>dly. ends h (f dly) Q" for tr Q and f :: "u32 \<Rightarrow> gen_msg option io"
    using assms[of tr] that by (cases "scale_beamdly (hw_in32 h tr (PL TRIGTOBEAM_DLY_REG))") auto
  show ?thesis
    unfolding gendata_turn_def Let_def
    by (intro ends_bind ends_in32 ends_delay split ends_ret ends_psc_send_msg) (simp add: gen_reports_def)
qed

lemma gendata_reports:
  assumes "stores (env w) (PL r)" "last_write (trace w) (PL r) = Some v" "(off, r) \<in> set gen_reports"
    and "\<And>tr. scale_beamdly (hw_in32 (env w) tr (PL TRIGTOBEAM_DLY_REG)) \<noteq> None"
  shows "\<exists>body. sends (events_of (gendata_turn m) w) = [(30, body)] \<and> at_offset body (off, shown r v)"
proof -
  define evs where "evs = events_of (gendata_turn m) w"
  have "set (reads_of (PL r) evs) \<subseteq> {v}"
    using truthful_gendata[of "PL r" m] assms(1,2) events_of_eq unfolding truthful_def evs_def by blast
  moreover have some: "fst (run_state (gendata_turn m) w) \<noteq> None" "reads_of (PL r) evs \<noteq> []"
    using ends_events[OF gendata_reads[OF assms(4)], of m] assms(3) by (auto simp: evs_def)
  ultimately have hd: "hd (reads_of (PL r) evs) = v"
    by (cases "reads_of (PL r) evs") auto
  obtain body dly where body: "sends evs = [(30, body)]" "list_all (at_offset body) (gen_fields evs m dly)"
    using ends_events[OF ends_gendata, of m w] some(1) by (auto simp: gen_outcome_def evs_def split: option.splits)
  have "(off, shown r (hd (reads_of (PL r) evs))) \<in> set (gen_fields evs m dly)"
    using assms(3) unfolding gen_reports_def list.set insert_iff empty_iff prod.inject simp_thms
    by (elim disjE conjE) (simp_all add: gen_fields_def shown_def Let_def)
  with body hd show ?thesis unfolding evs_def[symmetric] by (auto simp: list_all_iff)
qed

section \<open>Properties\<close>

text \<open>
  Property C28 (functional): a turn of the general data thread sends one message of 100 bytes, in which
  every register read in the turn stands at the offset its declaration gives, the attenuation in
  decibels and the beam delay in EVR clocks; the fine trigger delay stays what it was. It sends
  nothing only when the beam delay does not fit an \<open>int\<close>.
\<close>

theorem general_data_offsets:
  "let r = fst (run_state (gendata_turn m) w); evs = events_of (gendata_turn m) w;
       dly = scale_beamdly (hd (reads_of (PL TRIGTOBEAM_DLY_REG) evs))
   in if dly = None then r = None \<and> sends evs = []
      else \<exists>m' body. r = Some m' \<and> fine_trig_dly m' = fine_trig_dly m \<and> sends evs = [(30, body)]
        \<and> length body = 100 \<and> list_all (at_offset body) (gen_fields evs m (the dly))"
  using ends_events[OF ends_gendata, of m w]
  by (auto simp: gen_outcome_def Let_def split: option.splits)

text \<open>
  Property C29 (functional): a turn of the thermistor thread converts both inputs of the three chips
  and sends one message of six \<open>float\<close> values that are exactly the temperatures whose bytes it read.
\<close>

theorem thermistor_temperatures:
  assumes "byte_hw (env w)"
  shows "\<exists>body. sends (events_of thermistors_turn w) = [(33, body)] \<and> length body = 24
    \<and> float_fields 6 body = map Some (therm_values (reads_of (PL THERM_SPI_REG) (events_of thermistors_turn w)))"
  using ends_events[OF ends_thermistors_turn[OF assms]] .

theorem thermistor_temperatures_witness:
  "\<exists>body. sends (events_of thermistors_turn (start_world (fixed_hw (\<lambda>_. 5) (\<lambda>_. 0)))) = [(33, body)] \<and> length body = 24"
  using thermistor_temperatures[of "start_world (fixed_hw (\<lambda>_. 5) (\<lambda>_. 0))"]
  by (auto simp: byte_hw_def fixed_hw_def)

end
