(* ===== verification/Board_Stats.thy ===== *)
theory Board_Stats imports Telemetry I2c_Devices begin

text \<open>
  The threads that report the state of the board (\<^verbatim>\<open>brdstats.c\<close>: temperatures, supplies, SFP modules)
  and of the software (\<^verbatim>\<open>lstats.c\<close>: uptime, network and memory statistics, the IP address). What the
  die's system monitor, FreeRTOS and lwIP report are parameters.
\<close>

section \<open>Board statistics\<close>

text \<open>The readings of one turn. A module's five values are those of \<open>i2c_sfp_get_stats\<close>.\<close>

record brd_readings =
  githash :: u32
  dfe_brd :: "rat list"
  afe_brd :: "rat list"
  die_ps :: rat
  reg_temps :: "rat list"
  dfe_pwr :: "rat list"
  pwrmgmt :: rat
  afe_vin :: rat
  afe_iin :: rat
  sfp :: "rat list list"

fun map_io :: "('a \<Rightarrow> 'b io) \<Rightarrow> 'a list \<Rightarrow> 'b list io" where
  "map_io f [] = ret []"
| "map_io f (x # xs) = do { y \<leftarrow> f x; ys \<leftarrow> map_io f xs; ret (y # ys) }"

definition dfe_rails :: "rail list" where
  "dfe_rails = [VCC_VIN, VCC_VIN_CURRENT, VCC_3V3, VCC_3V3_CURRENT, VCC_2V5, VCC_2V5_CURRENT,
     VCC_1V8, VCC_1V8_CURRENT, DDR_1V2, DDR_1V2_CURRENT, VCC_0V85, VCC_0V85_CURRENT, MGT_2V5,
     MGT_2V5_CURRENT, MGT_1V2, MGT_1V2_CURRENT, MGT_0V9, MGT_0V9_CURRENT]"

text \<open>\<open>die\<close> is what \<open>sysmon_read_stats\<close> returns.\<close>

definition read_board :: "rat \<Rightarrow> brd_readings io" where
  "read_board die = do {
     hash \<leftarrow> Xil_In32 (PL GIT_SHASUM);
     i2c_set_port_expander I2C_PORTEXP1_ADDR 1;
     dfe \<leftarrow> map_io read_i2c_temp [0x48, 0x49, 0x4A, 0x4B];
     i2c_set_port_expander I2C_PORTEXP1_ADDR 0x40;
     afe \<leftarrow> map_io read_i2c_temp [0x48, 0x4A];
     vin \<leftarrow> ina226_read_bus_voltage;
     iin \<leftarrow> ina226_read_current;
     i2c_set_port_expander I2C_PORTEXP1_ADDR 4;
     i2c_configure_ltc2991;
     regs \<leftarrow> map_io i2c_ltc2991_rail [REG1_TEMP, REG2_TEMP, REG3_TEMP];
     pwr \<leftarrow> map_io i2c_ltc2991_rail dfe_rails;
     sfps \<leftarrow> map_io i2c_sfp_get_stats [0..<6];
     i2c_set_port_expander I2C_PORTEXP1_ADDR 8;
     mgmt \<leftarrow> i2c_ltc2977_stats;
     ret \<lparr>githash = hash, dfe_brd = dfe, afe_brd = afe, die_ps = die, reg_temps = regs, dfe_pwr = pwr,
       pwrmgmt = mgmt, afe_vin = vin, afe_iin = iin, sfp = sfps\<rparr>
   }"

text \<open>The readings of the supplies for the log.\<close>

definition i2c_get_ltc2991 :: "unit io" where
  "i2c_get_ltc2991 = do {
     map_io i2c_ltc2991_rail [VCC_VIN, VCC_VIN_CURRENT, VCC_3V3, VCC_3V3_CURRENT, VCC_2V5, VCC_2V5_CURRENT,
       VCC_1V8, VCC_1V8_CURRENT, VCC_0V85, VCC_0V85_CURRENT, MGT_2V5, MGT_2V5_CURRENT, MGT_1V2,
       MGT_1V2_CURRENT, MGT_0V9, MGT_0V9_CURRENT, DDR_1V2, DDR_1V2_CURRENT, REG1_TEMP, REG2_TEMP, REG3_TEMP];
     ret ()
   }"

text \<open>The message in memory order; \<open>die_pl\<close> and the two reserved words are never set. The modules' values
  are stored quantity by quantity.\<close>

definition brd_words :: "brd_readings \<Rightarrow> u32 list" where
  "brd_words r = htonl (githash r)
     # map htonf (dfe_brd r) @ map htonf (afe_brd r) @ [htonf (die_ps r), 0, 0]
     @ map htonf (dfe_pwr r)
     @ map htonf (reg_temps r) @ [htonf (pwrmgmt r), 0]
     @ [htonf (afe_vin r), htonf (afe_iin r)]
     @ concat (map (\<lambda>k. map (\<lambda>i. htonf (sfp r ! i ! k)) [0..<6]) [0..<5])"

definition brdstats_turn :: "rat \<Rightarrow> unit io" where
  "brdstats_turn die = do {
     vTaskDelay 1000;
     r \<leftarrow> read_board die;
     psc_send_msg 32 (concat (map le32 (brd_words r)))
   }"

section \<open>Software statistics\<close>

record os_stats =
  ticks :: nat
  nthread :: u32
  link_stats :: "u32 list"      \<comment> \<open>xmit, recv, drop, chkerr, memerr, proterr, err\<close>
  mem_stats :: "u32 list"       \<comment> \<open>err, avail, used, max, illegal\<close>
  xAvailableHeapSpaceInBytes :: u32
  xMinimumEverFreeBytesRemaining :: u32
  xSizeOfLargestFreeBlockInBytes :: u32
  xNumberOfSuccessfulAllocations :: u32
  xNumberOfSuccessfulFrees :: u32
  ip_string :: "u8 list"        \<comment> \<open>\<open>inet_ntoa\<close> of the interface's address\<close>

definition uptime :: "nat \<Rightarrow> os_stats \<Rightarrow> rat" where
  "uptime tick_rate st = f32 (f32 (of_nat (ticks st)) / f32 (of_nat tick_rate))"

definition lstats_words :: "nat \<Rightarrow> os_stats \<Rightarrow> u32 list" where
  "lstats_words tick_rate st =
     [htonf (uptime tick_rate st), htonl (nthread st)]
     @ map htonl (link_stats st) @ map htonl (mem_stats st)
     @ [htonl (xAvailableHeapSpaceInBytes st), htonl (xSizeOfLargestFreeBlockInBytes st),
        htonl (xMinimumEverFreeBytesRemaining st),
        htonl (xNumberOfSuccessfulAllocations st - xNumberOfSuccessfulFrees st)]"

text \<open>\<open>strncpy\<close>: at most \<open>n\<close> bytes of a string, filled up with zeros.\<close>

definition strncpy :: "nat \<Rightarrow> u8 list \<Rightarrow> u8 list" where
  "strncpy n s = take n (s @ replicate n 0)"

definition lstats_turn :: "nat \<Rightarrow> os_stats \<Rightarrow> unit io" where
  "lstats_turn tick_rate st = do {
     vTaskDelay 1000;
     psc_send_msg 103 (strncpy 16 (ip_string st));
     psc_send_msg 101 (concat (map le32 (lstats_words tick_rate st)))
   }"

section \<open>Where the values are\<close>

text \<open>The offsets at which the clients expect each reading, as the message's declaration gives them.\<close>

definition brd_layout :: "brd_readings \<Rightarrow> (nat \<times> u32) list" where
  "brd_layout r = (0, githash r)
     # map (\<lambda>i. (4 + 4 * i, float_bits (dfe_brd r ! i))) [0..<4]
     @ [(20, float_bits (afe_brd r ! 0)), (24, float_bits (afe_brd r ! 1)), (28, float_bits (die_ps r)), (32, 0), (36, 0)]
     @ map (\<lambda>i. (40 + 4 * i, float_bits (dfe_pwr r ! i))) [0..<18]
     @ map (\<lambda>i. (112 + 4 * i, float_bits (reg_temps r ! i))) [0..<3]
     @ [(124, float_bits (pwrmgmt r)), (128, 0), (132, float_bits (afe_vin r)), (136, float_bits (afe_iin r))]
     @ map (\<lambda>i. (140 + 4 * i, float_bits (sfp r ! i ! 0))) [0..<6]
     @ map (\<lambda>i. (164 + 4 * i, float_bits (sfp r ! i ! 1))) [0..<6]
     @ map (\<lambda>i. (188 + 4 * i, float_bits (sfp r ! i ! 2))) [0..<6]
     @ map (\<lambda>i. (212 + 4 * i, float_bits (sfp r ! i ! 3))) [0..<6]
     @ map (\<lambda>i. (236 + 4 * i, float_bits (sfp r ! i ! 4))) [0..<6]"

definition brd_shape :: "brd_readings \<Rightarrow> bool" where
  "brd_shape r \<longleftrightarrow> length (dfe_brd r) = 4 \<and> length (afe_brd r) = 2 \<and> length (reg_temps r) = 3
     \<and> length (dfe_pwr r) = 18 \<and> length (sfp r) = 6"

lemma htonl_0: "htonl 0 = 0"
  by (simp add: htonl_def join32_def)

lemma words_be32: "concat (map le32 ws) = concat (map be32 (map htonl ws))"
proof -
  have "be32 (htonl w) = le32 w" for w using le32_htonl[of "htonl w"] by simp
  then show ?thesis by (simp add: comp_def)
qed

lemma length_brd_words: "brd_shape r \<Longrightarrow> length (brd_words r) = 65"
  by (simp add: brd_words_def brd_shape_def length_concat comp_def upt_rec)

lemma map_nth_eq: "length xs = n \<Longrightarrow> map f xs = map (\<lambda>i. f (xs ! i)) [0..<n]"
  by (rule nth_equalityI) auto

lemma brd_layout_words:
  assumes "brd_shape r"
  shows "brd_layout r = zip (map ((*) 4) [0..<65]) (map htonl (brd_words r))"
proof -
  have "map snd (brd_layout r) = map htonl (brd_words r)"
    using assms map_nth_eq[of "dfe_brd r" 4 htonf] map_nth_eq[of "afe_brd r" 2 htonf] map_nth_eq[of "dfe_pwr r" 18 htonf]
      map_nth_eq[of "reg_temps r" 3 htonf]
    by (simp add: brd_layout_def brd_words_def brd_shape_def htonf_def htonl_0 upt_rec eval_nat_numeral)
  moreover have "map fst (brd_layout r) = map ((*) 4) [0..<65]"
    by (simp add: brd_layout_def upt_rec)
  ultimately show ?thesis by (metis zip_map_fst_snd)
qed

section \<open>A turn of each thread\<close>

definition silent :: "'a io \<Rightarrow> bool" where
  "silent m \<longleftrightarrow> appends (\<lambda>e. send_ev e = []) m"

lemma no_sends: "list_all (\<lambda>e. send_ev e = []) es \<Longrightarrow> sends es = []"
  by (induction es) simp_all

lemma ends_silent: "silent m \<Longrightarrow> ends h m (\<lambda>_ es. sends es = [])"
  unfolding silent_def by (erule ends_weaken[OF ends_appends]) (rule no_sends)

lemma silent_i2c:
  "silent (i2c_set_port_expander a p)" "silent (i2c_write bs a)" "silent (i2c_read n a)"
  "silent (read_i2c_temp a)" "silent i2c_configure_ltc2991" "silent (i2c_ltc2991_rail r)"
  "silent (i2c_sfp_get_stats s)" "silent i2c_ltc2977_stats"
  "silent ina226_read_bus_voltage" "silent ina226_read_current"
  unfolding silent_def i2c_defs read_i2c_temp_def i2c_configure_ltc2991_def i2c_ltc2991_rail_def
    i2c_ltc2991_voltage_def i2c_sfp_get_stats_def i2c_ltc2977_stats_def ina226_read_bus_voltage_def
    ina226_read_current_def ina226_scaled_def ina226_read_reg_def case_prod_beta
  by (intro appends_intros, simp_all)+

lemma ends_map_io:
  assumes "\<And>x. silent (f x)"
  shows "ends h (map_io f xs) (\<lambda>ys es. length ys = length xs \<and> sends es = [])"
proof (induction xs)
  case Nil
  then show ?case by (simp add: ends_ret)
next
  case (Cons x xs)
  show ?case
    unfolding map_io.simps
    by (intro ends_bind, rule ends_weaken[OF ends_silent[OF assms]], intro ends_bind,
        rule ends_weaken[OF Cons], intro ends_ret) simp
qed

lemma ends_read_board: "ends h (read_board die) (\<lambda>r es. sends es = [] \<and> brd_shape r \<and> die_ps r = die)"
  unfolding read_board_def
  apply (intro ends_bind ends_in32)
  apply (rule ends_weaken[OF ends_silent[OF silent_i2c(1)]], intro ends_bind)
  apply (rule ends_weaken[OF ends_map_io[OF silent_i2c(4)]], intro ends_bind)
  apply (rule ends_weaken[OF ends_silent[OF silent_i2c(1)]], intro ends_bind)
  apply (rule ends_weaken[OF ends_map_io[OF silent_i2c(4)]], intro ends_bind)
  apply (rule ends_weaken[OF ends_silent[OF silent_i2c(9)]], intro ends_bind)
  apply (rule ends_weaken[OF ends_silent[OF silent_i2c(10)]], intro ends_bind)
  apply (rule ends_weaken[OF ends_silent[OF silent_i2c(1)]], intro ends_bind)
  apply (rule ends_weaken[OF ends_silent[OF silent_i2c(5)]], intro ends_bind)
  apply (rule ends_weaken[OF ends_map_io[OF silent_i2c(6)]], intro ends_bind)
  apply (rule ends_weaken[OF ends_map_io[OF silent_i2c(6)]], intro ends_bind)
  apply (rule ends_weaken[OF ends_map_io[OF silent_i2c(7)]], intro ends_bind)
  apply (rule ends_weaken[OF ends_silent[OF silent_i2c(1)]], intro ends_bind)
  apply (rule ends_weaken[OF ends_silent[OF silent_i2c(8)]], intro ends_ret)
  apply (simp add: brd_shape_def dfe_rails_def)
  done


end
