(* ===== verification/Console.thy ===== *)
theory Console imports Network begin

text \<open>
  The serial console, \<^verbatim>\<open>console.c\<close>: its menu and the two dialogues in it. What the operator types is a
  list of bytes; a thread that waits for the next one when there is none waits for ever. The delays of
  the polling loops and all output are left out.
\<close>

section \<open>Input\<close>

text \<open>What reading gives: nothing yet, a write outside a buffer, or a value and what is left to read.\<close>

datatype 'a input = Starved | Overrun | Got 'a "u8 list"

abbreviation (input) CR :: u8 where "CR \<equiv> 13"
abbreviation (input) LF :: u8 where "LF \<equiv> 10"
abbreviation (input) MAX_INPUT_LEN :: nat where "MAX_INPUT_LEN \<equiv> 64"

definition end_line :: "u8 list \<Rightarrow> nat \<Rightarrow> u8 list \<Rightarrow> u8 list input" where
  "end_line buffer idx inp = (case store buffer idx 0 of None \<Rightarrow> Overrun | Some b \<Rightarrow> Got b inp)"

fun uart_read_line :: "nat \<Rightarrow> u8 list \<Rightarrow> nat \<Rightarrow> u8 list \<Rightarrow> u8 list input" where
  "uart_read_line max_len buffer idx [] = (if idx < max_len - 1 then Starved else end_line buffer idx [])"
| "uart_read_line max_len buffer idx (c # inp) =
    (if idx < max_len - 1 then
       if c = CR \<or> c = LF then end_line buffer idx inp
       else case store buffer idx c of None \<Rightarrow> Overrun | Some b \<Rightarrow> uart_read_line max_len b (Suc idx) inp
     else end_line buffer idx (c # inp))"

fun get_binary_input :: "u8 list \<Rightarrow> u8 input" where
  "get_binary_input [] = Starved"
| "get_binary_input (c # inp) = Got (if c = of_char (CHR ''0'') then 0 else if c = of_char (CHR ''1'') then 1 else 255) inp"

text \<open>The reading loop of \<open>menu_get_ipaddr\<close>, which no code calls: a backspace moves the index back,
  below 0 too.\<close>

fun get_ipaddr_line :: "u8 list \<Rightarrow> u32 \<Rightarrow> u8 list \<Rightarrow> u8 list input" where
  "get_ipaddr_line buf index [] = Starved"
| "get_ipaddr_line buf index (c # inp) =
    (if c = 8 then get_ipaddr_line buf (index - 1) inp
     else if c = CR then (case store buf (unat index) LF of None \<Rightarrow> Overrun | Some b \<Rightarrow> Got b inp)
     else case store buf (unat index) c of None \<Rightarrow> Overrun | Some b \<Rightarrow> get_ipaddr_line b (index + 1) inp)"

section \<open>Numbers\<close>

text \<open>
  \<open>strtof\<close> of the C library: optional space and sign, then a decimal number, a hexadecimal one, an
  infinity or a NaN; the value and how many characters it takes, none when there is no number. An
  infinity or a NaN is no value, \<open>None\<close>. The exponent range of a float is not checked: a number
  beyond it is an infinity or 0.
\<close>

definition digit_of :: "nat \<Rightarrow> u8 \<Rightarrow> nat option" where
  "digit_of base c = (case hex_value c of Some d \<Rightarrow> if d < base then Some d else None | None \<Rightarrow> None)"

definition digits_of :: "nat \<Rightarrow> u8 list \<Rightarrow> u8 list" where
  "digits_of base s = takeWhile (\<lambda>c. digit_of base c \<noteq> None) s"

definition digits_value :: "nat \<Rightarrow> u8 list \<Rightarrow> nat" where
  "digits_value base ds = foldl (\<lambda>v c. v * base + the (digit_of base c)) 0 ds"

definition scan_sign :: "u8 list \<Rightarrow> bool \<times> u8 list" where
  "scan_sign s = (case s of [] \<Rightarrow> (False, s)
    | c # r \<Rightarrow> if c = of_char (CHR ''-'') then (True, r) else if c = of_char (CHR ''+'') then (False, r) else (False, s))"

definition scan_exponent :: "u8 list \<Rightarrow> u8 list \<Rightarrow> int \<times> u8 list" where
  "scan_exponent marks s = (case s of [] \<Rightarrow> (0, s)
    | c # r \<Rightarrow> (let (neg, t) = scan_sign r; ds = digits_of 10 t in
        if c \<in> set marks \<and> ds \<noteq> [] then
          ((if neg then - 1 else 1) * int (digits_value 10 ds), drop (length ds) t)
        else (0, s)))"

definition scan_number :: "nat \<Rightarrow> rat \<Rightarrow> u8 list \<Rightarrow> u8 list \<Rightarrow> (rat \<times> u8 list) option" where
  "scan_number base ebase marks s =
    (let ip = digits_of base s; s1 = drop (length ip) s;
         fp = (case s1 of [] \<Rightarrow> [] | c # r \<Rightarrow> if c = of_char (CHR ''.'') then digits_of base r else []);
         s2 = (case s1 of [] \<Rightarrow> [] | c # r \<Rightarrow> if c = of_char (CHR ''.'') then drop (length fp) r else s1);
         (e, s3) = scan_exponent marks s2
     in if ip = [] \<and> fp = [] then None
        else Some (of_nat (digits_value base (ip @ fp)) / of_nat base ^ length fp * ebase powi e, s3))"

definition lower :: "u8 \<Rightarrow> u8" where
  "lower c = (if of_char (CHR ''A'') \<le> c \<and> c \<le> of_char (CHR ''Z'') then c + 32 else c)"

definition has_prefix :: "string \<Rightarrow> u8 list \<Rightarrow> bool" where
  "has_prefix p s \<longleftrightarrow> take (length p) (map lower s) = ascii p"

definition strtof :: "u8 list \<Rightarrow> rat option \<times> nat" where
  "strtof s =
    (let (neg, t) = scan_sign (dropWhile isspace s);
         hex = (if has_prefix ''0x'' t then scan_number 16 2 (ascii ''pP'') (drop 2 t) else None);
         sgn = (if neg then - 1 else 1)
     in case (case hex of Some n \<Rightarrow> Some n | None \<Rightarrow> scan_number 10 10 (ascii ''eE'') t) of
          Some (v, r) \<Rightarrow> (Some (f32 (sgn * v)), length s - length r)
        | None \<Rightarrow>
            let n = length s - length t in
            if has_prefix ''infinity'' t then (None, n + 8)
            else if has_prefix ''inf'' t then (None, n + 3)
            else if has_prefix ''nan'' t then (None, n + 3)
            else (Some 0, 0))"

text \<open>From millimetres to nanometres; \<open>None\<close> where the conversion of C is undefined.\<close>

definition mm_to_nm :: "rat \<Rightarrow> u32 option" where
  "mm_to_nm mm = to_u32 (f32 (f32 (mm * 1000000) + 1 / 2))"

section \<open>The dialogues\<close>

text \<open>How a dialogue goes on: it waits for input, does something undefined, resets the board, or
  returns with the rest of the input.\<close>

datatype outcome = Waits | Undefined_Behaviour | Resets | Returns "u8 list"

definition number_typed :: "u8 list \<Rightarrow> rat option option" where
  "number_typed b = (case strtof (cstr b 0) of (v, n) \<Rightarrow> if n = 0 \<or> b ! n \<noteq> 0 then None else Some v)"

definition set_kx_ky_console :: "u8 list \<Rightarrow> u8 list \<Rightarrow> outcome io" where
  "set_kx_ky_console buffer inp =
    (case uart_read_line MAX_INPUT_LEN buffer 0 inp of
       Starved \<Rightarrow> ret Waits | Overrun \<Rightarrow> ret Undefined_Behaviour
     | Got b1 inp1 \<Rightarrow> (case number_typed b1 of None \<Rightarrow> ret (Returns inp1) | Some kx_mm \<Rightarrow>
     (case uart_read_line MAX_INPUT_LEN b1 0 inp1 of
       Starved \<Rightarrow> ret Waits | Overrun \<Rightarrow> ret Undefined_Behaviour
     | Got b2 inp2 \<Rightarrow> (case number_typed b2 of None \<Rightarrow> ret (Returns inp2) | Some ky_mm \<Rightarrow>
     (case (Option.bind kx_mm mm_to_nm, Option.bind ky_mm mm_to_nm) of
       (Some kx_nm, Some ky_nm) \<Rightarrow> do {
         set_kxky HOR kx_nm;
         set_kxky VERT ky_nm;
         save_kxky_eeprom kx_nm ky_nm;
         ret (Returns inp2)
       }
     | _ \<Rightarrow> ret Undefined_Behaviour)))))"

definition reboot :: "u8 list \<Rightarrow> outcome io" where
  "reboot inp = (case get_binary_input inp of
     Starved \<Rightarrow> ret Waits | Overrun \<Rightarrow> ret Undefined_Behaviour
   | Got val inp' \<Rightarrow> if val \<noteq> 1 then ret (Returns inp') else do { vTaskDelay 100; ret Resets })"

text \<open>The settings shown are read from the PL; the address and the access count are only printed.\<close>

definition display_all_settings :: "u8 list \<Rightarrow> outcome io" where
  "display_all_settings inp = do {
     kx_nm \<leftarrow> Xil_In32 (PL KX_REG);
     ky_nm \<leftarrow> Xil_In32 (PL KY_REG);
     ret (Returns inp)
   }"

definition dump_eeprom :: "u8 list \<Rightarrow> outcome io" where
  "dump_eeprom inp = do { eeprom_dump; ret (Returns inp) }"

text \<open>What the task statistics show of a task: a letter for its state, its share of the time.\<close>

datatype task_state = eRunning | eReady | eBlocked | eSuspended | eDeleted | eInvalid

fun stateChar :: "task_state \<Rightarrow> char" where
  "stateChar eRunning = CHR ''R''"
| "stateChar eReady = CHR ''Y''"
| "stateChar eBlocked = CHR ''B''"
| "stateChar eSuspended = CHR ''S''"
| "stateChar eDeleted = CHR ''D''"
| "stateChar eInvalid = CHR ''?''"

definition cpuPercent :: "u32 \<Rightarrow> u32 \<Rightarrow> rat" where
  "cpuPercent ulRunTimeCounter totalRunTime =
    (if totalRunTime > 0 then f32 (f32 (f32 (of_int (uint ulRunTimeCounter)) * 100) / f32 (of_int (uint totalRunTime))) else 0)"

section \<open>The menu\<close>

type_synonym menu = "(u8 \<times> (u8 list \<Rightarrow> outcome io)) list"

definition toupper :: "u8 \<Rightarrow> u8" where
  "toupper c = (if of_char (CHR ''a'') \<le> c \<and> c \<le> of_char (CHR ''z'') then c - 32 else c)"

definition do_choice :: "menu \<Rightarrow> u8 \<Rightarrow> u8 list \<Rightarrow> outcome io" where
  "do_choice m choice inp = (case map_of m choice of Some entryFunc \<Rightarrow> entryFunc inp | None \<Rightarrow> ret (Returns inp))"

text \<open>At most \<open>fuel\<close> turns of the loop.\<close>

fun exec_menu :: "nat \<Rightarrow> menu \<Rightarrow> u8 list \<Rightarrow> outcome option io" where
  "exec_menu 0 m inp = ret None"
| "exec_menu (Suc fuel) m [] = do { vTaskDelay 100; ret (Some Waits) }"
| "exec_menu (Suc fuel) m (c # inp) = do {
     vTaskDelay 100;
     r \<leftarrow> do_choice m (toupper c) inp;
     case r of
       Returns inp' \<Rightarrow> if toupper c = of_char (CHR ''Q'') then ret (Some (Returns inp')) else exec_menu fuel m inp'
     | _ \<Rightarrow> ret (Some r)
   }"

definition console_entries :: "u8 list \<Rightarrow> menu" where
  "console_entries buffer = [
     (of_char (CHR ''A''), display_all_settings),
     (of_char (CHR ''C''), reboot),
     (of_char (CHR ''D''), \<lambda>inp. ret (Returns inp)),
     (of_char (CHR ''E''), \<lambda>inp. ret (Returns inp)),
     (of_char (CHR ''F''), \<lambda>inp. ret (Returns inp)),
     (of_char (CHR ''G''), set_kx_ky_console buffer),
     (of_char (CHR ''H''), dump_eeprom)]"

text \<open>\<open>console_menu\<close> starts the menu again whenever the operator quits it.\<close>

fun console_menu :: "nat \<Rightarrow> u8 list \<Rightarrow> u8 list \<Rightarrow> outcome option io" where
  "console_menu 0 buffer inp = ret None"
| "console_menu (Suc fuel) buffer inp = do {
     vTaskDelay 10;
     r \<leftarrow> exec_menu (Suc (length inp)) (console_entries buffer) inp;
     case r of Some (Returns inp') \<Rightarrow> console_menu fuel buffer inp' | _ \<Rightarrow> ret r
   }"

section \<open>Reading a line\<close>

lemma line_typed:
  assumes "length buf = 64" "CR \<notin> set t" "LF \<notin> set t" "e = CR \<or> e = LF"
  shows "idx + length t < 63 \<Longrightarrow>
    uart_read_line 64 buf idx (t @ e # inp) = Got (take idx buf @ t @ 0 # drop (Suc (idx + length t)) buf) inp"
  using assms(1-3)
proof (induction t arbitrary: idx buf)
  case Nil
  then show ?case using assms(4) by (simp add: end_line_def store_def upd_conv_take_nth_drop)
next
  case (Cons c t)
  have "take (Suc idx) (buf[idx := c]) = take idx buf @ [c]"
    using Cons.prems by (simp add: take_Suc_conv_app_nth)
  then show ?case using Cons by (simp add: store_def)
qed

text \<open>A line read from the port is in the buffer with its end, whatever is typed.\<close>

definition line_ok :: "nat \<Rightarrow> u8 list \<Rightarrow> u8 list input \<Rightarrow> bool" where
  "line_ok n inp r = (case r of Starved \<Rightarrow> True | Overrun \<Rightarrow> False
     | Got b rest \<Rightarrow> length b = n \<and> 0 \<in> set b \<and> length rest \<le> length inp)"

lemma end_line_ok: "idx < length buf \<Longrightarrow> line_ok (length buf) inp (end_line buf idx inp)"
  by (simp add: line_ok_def end_line_def store_def set_update_memI)

lemma line_ok_mono: "line_ok n inp r \<Longrightarrow> line_ok n (c # inp) r"
  by (auto simp: line_ok_def split: input.splits)

lemma uart_read_line_ok:
  "length buf = n \<Longrightarrow> 1 \<le> n \<Longrightarrow> idx \<le> n - 1 \<Longrightarrow> line_ok n inp (uart_read_line n buf idx inp)"
proof (induction inp arbitrary: buf idx)
  case Nil
  then have "idx < n" by simp
  then have "line_ok n [] (end_line buf idx [])" using end_line_ok[of idx buf "[]"] Nil by simp
  then show ?case by (simp add: line_ok_def)
next
  case (Cons c inp)
  have e: "line_ok n xs (end_line buf idx xs)" for xs using end_line_ok[of idx buf xs] Cons.prems by simp
  show ?case
  proof (cases "idx < n - 1")
    case True
    then have "store buf idx c = Some (buf[idx := c])" using Cons.prems by (simp add: store_def)
    moreover have "line_ok n inp (uart_read_line n (buf[idx := c]) (Suc idx) inp)"
      using Cons.prems True by (intro Cons.IH) simp_all
    ultimately show ?thesis using True e[of inp] by (simp add: line_ok_mono)
  next
    case False
    then show ?thesis using e by simp
  qed
qed

section \<open>The conversion\<close>

lemma half_exact: "0 \<le> n \<Longrightarrow> n < 2 ^ 23 \<Longrightarrow> f32 (of_int n + 1 / 2) = of_int n + 1 / 2"
  using fround_value[of 24 "2 * n + 1" "- 1"] by (simp add: f32_def field_simps power_int_minus)

lemma half_even:
  assumes "2 ^ 23 \<le> n" "n < 2 ^ 24"
  shows "f32 (of_int n + 1 / 2) = of_int (if even n then n else n + 1)"
proof -
  let ?x = "of_int n + 1 / 2 :: rat"
  have "(of_int (2 ^ 23) :: rat) \<le> of_int n" "(of_int n :: rat) \<le> of_int (2 ^ 24 - 1)"
    using assms by (simp_all only: of_int_le_iff)
  then have x: "2 powi 23 \<le> ?x" "?x < 2 powi 24" "0 < ?x" by (simp_all add: power_int_def)
  have "flog2 ?x < 24" using flog2_less x by blast
  moreover have "23 < flog2 ?x + 1" using flog2_bounds(2)[OF x(3)] x(1) powi_less_iff[of 23 "flog2 ?x + 1"] by linarith
  ultimately have "flog2 ?x = 23" by simp
  then have "f32 ?x = of_int (round_even ?x)" by (simp add: f32_def fround_pos[OF x(3)])
  moreover have "\<lfloor>?x\<rfloor> = n" by linarith
  ultimately show ?thesis by (simp add: round_even_def Let_def)
qed

lemma mm_to_nm_whole:
  assumes "mm * 1000000 = of_int n" "0 \<le> n" "n < 2 ^ 24"
  shows "mm_to_nm mm = Some (word_of_int (if n < 2 ^ 23 \<or> even n then n else n + 1))"
proof -
  have e: "f32 (mm * 1000000) = of_int n"
    using fround_value[of 24 n 0] assms by (simp add: f32_def)
  show ?thesis
  proof (cases "n < 2 ^ 23")
    case True
    have "rtrunc (of_int n + 1 / 2) = n" using assms(2) by (simp add: rtrunc_def) linarith
    then show ?thesis using True assms(2) by (simp add: mm_to_nm_def e half_exact to_u32_def)
  next
    case False
    let ?m = "if even n then n else n + 1"
    have "mm_to_nm mm = to_u32 (of_int ?m)" using half_even[of n] False assms(3) unfolding mm_to_nm_def e by simp
    moreover have "rtrunc (of_int ?m) = ?m" by (simp add: rtrunc_def del: of_int_add)
    moreover have "0 \<le> ?m" "?m \<le> 4294967295" using assms(2,3) by auto
    ultimately have "mm_to_nm mm = Some (word_of_int ?m)" by (simp only: to_u32_def atLeastAtMost_iff simp_thms if_True)
    then show ?thesis using False by simp
  qed
qed

text \<open>
  Property C39 (bounds): when the value in nanometres is a whole number of float precision, adding a half
  before truncating is right below 2 ^ 23; from there on the sum is rounded to even first, and an odd
  number of nanometres comes out one too large.
\<close>

theorem nm_rounding:
  assumes "mm * 1000000 = of_int n" "0 \<le> n" "n < 2 ^ 24"
  shows "mm_to_nm mm = Some (word_of_int (if n < 2 ^ 23 \<or> even n then n else n + 1))"
  by (rule mm_to_nm_whole[OF assms])

theorem nm_rounding_witness: "mm_to_nm (537 / 64) = Some 8390626"
  using nm_rounding[of "537 / 64" 8390625] by simp

section \<open>Dialogues\<close>

text \<open>A text that is a number, as the operator types it.\<close>

definition typed :: "u8 list \<Rightarrow> rat option \<Rightarrow> bool" where
  "typed t v \<longleftrightarrow> strtof t = (v, length t) \<and> t \<noteq> [] \<and> length t < 63 \<and> 0 \<notin> set t \<and> CR \<notin> set t \<and> LF \<notin> set t"

lemma number_typed_line: "typed t v \<Longrightarrow> number_typed (t @ 0 # r) = Some v"
  using cstr_at[of t "[]" r] by (simp add: typed_def number_typed_def)

lemma typed_line:
  assumes "typed t v" "length buf = 64"
  shows "\<exists>r. uart_read_line 64 buf 0 (t @ CR # inp) = Got (t @ 0 # r) inp \<and> length (t @ 0 # r) = 64"
  using line_typed[of buf t CR 0 inp] assms by (auto simp: typed_def)

lemma kxky_dialogue:
  assumes "length buf = 64" "typed t1 (Some kx)" "typed t2 (Some ky)" "mm_to_nm kx = Some a" "mm_to_nm ky = Some b"
  shows "set_kx_ky_console buf (t1 @ CR # t2 @ CR # inp) =
    do { set_kxky HOR a; set_kxky VERT b; save_kxky_eeprom a b; ret (Returns inp) }"
proof -
  obtain r1 where 1: "uart_read_line 64 buf 0 (t1 @ CR # t2 @ CR # inp) = Got (t1 @ 0 # r1) (t2 @ CR # inp)"
    and l: "length (t1 @ 0 # r1) = 64" using typed_line[OF assms(2,1)] by blast
  obtain r2 where 2: "uart_read_line 64 (t1 @ 0 # r1) 0 (t2 @ CR # inp) = Got (t2 @ 0 # r2) inp"
    using typed_line[OF assms(3) l] by blast
  show ?thesis
    unfolding set_kx_ky_console_def 1 input.case number_typed_line[OF assms(2)] option.case 2
      number_typed_line[OF assms(3)] by (simp add: assms(4,5))
qed

text \<open>
  Property C37 (functional): two numbers typed in the dialogue are the factors programmed at once and,
  through the EEPROM, at the next start.
\<close>

theorem typed_factors_programmed:
  assumes "eeprom_ok (env w)" "length buf = 64" "typed t1 (Some kx)" "typed t2 (Some ky)"
    and nm: "mm_to_nm kx = Some a" "mm_to_nm ky = Some b"
    and w1: "(r, w1) = run_state (set_kx_ky_console buf (t1 @ CR # t2 @ CR # inp)) w"
    and w2: "trace w2 = trace w1 @ evs" "env w2 = env w" "filter eeprom_write evs = []"
  shows "r = Returns inp \<and> writes (trace w1) = writes (trace w) @ [(PL KX_REG, a), (PL KY_REG, b)]
    \<and> writes (events_of ReadEEPROMHardwareSettings w2) =
        (if a \<noteq> 0xFFFFFFFF \<and> a \<noteq> 0 then [(PL KX_REG, a)] else []) @ (if b \<noteq> 0xFFFFFFFF \<and> b \<noteq> 0 then [(PL KY_REG, b)] else [])"
proof -
  let ?w' = "log_ev (Wr32 (PL KY_REG) b) (log_ev (Wr32 (PL KX_REG) a) w)"
  have run: "run_state (set_kx_ky_console buf (t1 @ CR # t2 @ CR # inp)) w
      = (Returns inp, snd (run_state (save_kxky_eeprom a b) ?w'))"
    unfolding kxky_dialogue[OF assms(2-4) nm] by (simp add: set_kxky_def io_simps case_prod_beta)
  then have w1': "w1 = snd (run_state (save_kxky_eeprom a b) ?w')" "r = Returns inp" using w1 by simp_all
  have fw: "fixed_writes (save_kxky_eeprom a b) ([] @ [] @ [] @ [])"
    unfolding save_kxky_eeprom_def i2c_eeprom_writeBytes_def i2c_set_port_expander_def i2c_write_def
    by (intro fixed_bind fixed_prims fixed_ret | simp add: fixed_writes_def io_simps)+
  then have "writes (trace w1) = writes (trace w) @ [(PL KX_REG, a), (PL KY_REG, b)]"
    unfolding w1' fixed_writes_def by simp
  moreover have "eeprom_ok (env ?w')" using assms(1) by simp
  moreover have "env w2 = env ?w'" using w2(2) by simp
  ultimately show ?thesis using kxky_roundtrip[OF _ w1'(1) w2(1) _ w2(3)] w1'(2) by blast
qed

lemma typed_examples: "typed (ascii ''1.5'') (Some (3 / 2))" "typed (ascii ''25e-2'') (Some (1 / 4))"
  by code_simp+

lemma nm_examples: "mm_to_nm (3 / 2) = Some 1500000" "mm_to_nm (1 / 4) = Some 250000"
  using mm_to_nm_whole[of "3 / 2" 1500000] mm_to_nm_whole[of "1 / 4" 250000] by simp_all

theorem typed_factors_programmed_witness:
  "let (r, w1) = run_state (set_kx_ky_console (replicate 64 0) (ascii ''1.5'' @ CR # ascii ''25e-2'' @ [CR])) (start_world ee_hw) in
     r = Returns [] \<and> writes (trace w1) = [(PL KX_REG, 1500000), (PL KY_REG, 250000)]
     \<and> writes (events_of ReadEEPROMHardwareSettings w1) = [(PL KX_REG, 1500000), (PL KY_REG, 250000)]"
proof -
  obtain r w1 where w1: "(r, w1) = run_state (set_kx_ky_console (replicate 64 0) (ascii ''1.5'' @ CR # ascii ''25e-2'' @ [CR])) (start_world ee_hw)"
    by (cases "run_state (set_kx_ky_console (replicate 64 0) (ascii ''1.5'' @ CR # ascii ''25e-2'' @ [CR])) (start_world ee_hw)") simp
  have env: "env w1 = env (start_world ee_hw)"
    using w1 typed_examples nm_examples kxky_dialogue[of "replicate 64 0" "ascii ''1.5''" "3 / 2" "ascii ''25e-2''" "1 / 4" 1500000 250000 "[]"]
    by (simp add: set_kxky_def save_kxky_eeprom_def i2c_defs io_simps case_prod_beta)
  have ok: "eeprom_ok (env (start_world ee_hw))" using ee_hw_ok by simp
  show ?thesis
    using typed_factors_programmed[OF ok _ typed_examples nm_examples w1, of w1 "[]"] env
    unfolding w1[symmetric] by simp
qed

section \<open>Whatever is typed\<close>

text \<open>A number never takes more characters than the text has, so the test for its end reads within the
  buffer.\<close>

lemma scan_sign_length: "length (snd (scan_sign s)) \<le> length s"
  by (simp add: scan_sign_def split: list.split)

lemma digits_length: "length (drop (length (digits_of b s)) s) \<le> length s"
  by simp

lemma scan_exponent_length: "length (snd (scan_exponent m s)) \<le> length s"
proof (cases s)
  case (Cons c r)
  have "length (snd (scan_sign r)) \<le> length r" by (rule scan_sign_length)
  then show ?thesis unfolding Cons by (cases "scan_sign r") (simp add: scan_exponent_def Let_def, linarith)
qed (simp add: scan_exponent_def)

lemma scan_number_length:
  assumes "scan_number b eb m s = Some (v, r)"
  shows "length r \<le> length s"
proof -
  define s1 where "s1 = drop (length (digits_of b s)) s"
  define fp where "fp = (case s1 of [] \<Rightarrow> [] | c # r \<Rightarrow> if c = of_char (CHR ''.'') then digits_of b r else [])"
  define s2 where "s2 = (case s1 of [] \<Rightarrow> [] | c # r \<Rightarrow> if c = of_char (CHR ''.'') then drop (length fp) r else s1)"
  have "r = snd (scan_exponent m s2)"
    using assms unfolding scan_number_def Let_def case_prod_beta s2_def fp_def s1_def
    by (auto simp only: option.inject prod.inject option.distinct fst_conv snd_conv split: if_splits)
  then have "length r \<le> length s2" using scan_exponent_length by simp
  also have "length s2 \<le> length s1" unfolding s2_def by (cases s1) auto
  also have "length s1 \<le> length s" unfolding s1_def by simp
  finally show ?thesis .
qed

lemma prefix_length: "has_prefix p s \<Longrightarrow> length p \<le> length s"
  by (drule arg_cong[where f = length, OF has_prefix_def[THEN iffD1]]) (simp add: min_def split: if_splits)

lemma strtof_length: "snd (strtof s) \<le> length s"
proof -
  obtain neg t where t: "scan_sign (dropWhile isspace s) = (neg, t)" by fastforce
  have l: "length t \<le> length s"
    using scan_sign_length[of "dropWhile isspace s"] length_dropWhile_le[of isspace s] t by simp
  show ?thesis
    using l prefix_length[of "''infinity''" t] prefix_length[of "''inf''" t] prefix_length[of "''nan''" t]
    unfolding strtof_def t Let_def prod.case by (auto split: option.split)
qed

text \<open>What a dialogue leaves to read is part of what there was.\<close>

definition leaves :: "nat \<Rightarrow> outcome \<Rightarrow> bool" where
  "leaves n r \<longleftrightarrow> (\<forall>inp. r = Returns inp \<longrightarrow> length inp \<le> n)"

lemma leaves_simps [simp]: "leaves n Waits" "leaves n Undefined_Behaviour" "leaves n Resets"
    "leaves n (Returns inp) \<longleftrightarrow> length inp \<le> n"
  by (auto simp: leaves_def)

lemma line_cases:
  assumes "length buf = 64"
  obtains "uart_read_line 64 buf 0 inp = Starved"
  | b rest where "uart_read_line 64 buf 0 inp = Got b rest" "length b = 64" "length rest \<le> length inp"
  using uart_read_line_ok[OF assms, of 0 inp] that by (cases "uart_read_line 64 buf 0 inp") (auto simp: line_ok_def)

lemma kxky_cases:
  assumes "length buf = 64"
  obtains r where "set_kx_ky_console buf inp = ret r" "leaves (length inp) r"
  | a b rest where "set_kx_ky_console buf inp = do { set_kxky HOR a; set_kxky VERT b; save_kxky_eeprom a b; ret (Returns rest) }"
      "length rest \<le> length inp"
proof (cases rule: line_cases[OF assms, of inp])
  case 1
  then show ?thesis by (intro that(1)[of Waits]) (simp_all add: set_kx_ky_console_def)
next
  case (2 b1 inp1)
  note l1 = 2
  show ?thesis
  proof (cases "number_typed b1")
    case None
    then show ?thesis using l1 by (intro that(1)[of "Returns inp1"]) (simp_all add: set_kx_ky_console_def)
  next
    case (Some kx)
    note kx = Some
    show ?thesis
    proof (cases rule: line_cases[OF l1(2), of inp1])
      case 1
      then show ?thesis using l1 kx by (intro that(1)[of Waits]) (simp_all add: set_kx_ky_console_def)
    next
      case (2 b2 inp2)
      show ?thesis
      proof (cases "number_typed b2")
        case None
        then show ?thesis using l1 kx 2 by (intro that(1)[of "Returns inp2"]) (simp_all add: set_kx_ky_console_def)
      next
        case (Some ky)
        show ?thesis
        proof (cases "Option.bind kx mm_to_nm = None \<or> Option.bind ky mm_to_nm = None")
          case True
          then show ?thesis using l1 kx 2 Some
            by (intro that(1)[of Undefined_Behaviour]) (auto simp: set_kx_ky_console_def split: option.split)
        next
          case False
          then obtain a b where "Option.bind kx mm_to_nm = Some a" "Option.bind ky mm_to_nm = Some b" by auto
          then show ?thesis using l1 kx 2 Some
            by (intro that(2)[of a b inp2]) (simp_all add: set_kx_ky_console_def)
        qed
      qed
    qed
  qed
qed



section \<open>The menu comes back to the operator\<close>

definition entries_ok :: "menu \<Rightarrow> bool" where
  "entries_ok m \<longleftrightarrow> (\<forall>(c, f) \<in> set m. \<forall>h inp. ends h (f inp) (\<lambda>r es. leaves (length inp) r))"

lemma ends_do_choice: "entries_ok m \<Longrightarrow> ends h (do_choice m c inp) (\<lambda>r es. leaves (length inp) r)"
  unfolding do_choice_def entries_ok_def by (auto intro!: ends_ret dest!: map_of_SomeD split: option.split)

lemma ends_exec_menu:
  assumes "entries_ok m"
  shows "length inp < fuel \<Longrightarrow> ends h (exec_menu fuel m inp)
    (\<lambda>r es. \<exists>s. r = Some s \<and> (\<forall>rest. s = Returns rest \<longrightarrow> length rest < length inp))"
proof (induction fuel arbitrary: inp)
  case 0
  then show ?case by simp
next
  case (Suc k)
  show ?case
  proof (cases inp)
    case Nil
    then show ?thesis by (simp, intro ends_bind ends_delay ends_ret) simp
  next
    case (Cons c rest)
    show ?thesis unfolding Cons exec_menu.simps
    proof (intro ends_bind ends_delay, rule ends_weaken[OF ends_do_choice[OF assms]])
      fix r :: outcome and es
      assume l: "leaves (length rest) r"
      show "ends h (case r of Returns inp' \<Rightarrow> if toupper c = of_char (CHR ''Q'') then ret (Some (Returns inp')) else exec_menu k m inp'
           | _ \<Rightarrow> ret (Some r))
         (\<lambda>y fs. \<exists>s. y = Some s \<and> (\<forall>rest'. s = Returns rest' \<longrightarrow> length rest' < length (c # rest)))"
      proof (cases r)
        case (Returns inp')
        then have i: "length inp' \<le> length rest" using l by simp
        then have "ends h (exec_menu k m inp') (\<lambda>r es. \<exists>s. r = Some s \<and> (\<forall>rest. s = Returns rest \<longrightarrow> length rest < length inp'))"
          using Suc.prems Cons by (intro Suc.IH) simp
        then show ?thesis using Returns i by (auto intro!: ends_ret elim!: ends_weaken)
      qed (auto intro: ends_ret)
    qed
  qed
qed

lemma ends_any: "appends (\<lambda>_. True) m \<Longrightarrow> ends h m (\<lambda>_ _. True)"
  by (erule ends_weaken[OF ends_appends]) simp

lemma console_entries_ok:
  assumes "length buf = 64"
  shows "entries_ok (console_entries buf)"
proof -
  have "ends h (set_kx_ky_console buf inp) (\<lambda>r es. leaves (length inp) r)" for h inp
  proof (cases rule: kxky_cases[OF assms, of inp])
    case 1
    then show ?thesis by (simp add: ends_ret)
  next
    case (2 a b rest)
    have "appends (\<lambda>_. True) (set_kxky x v)" "appends (\<lambda>_. True) (save_kxky_eeprom v u)" for x v u
      unfolding set_kxky_def save_kxky_eeprom_def i2c_defs by (intro appends_intros, simp_all)+
    then show ?thesis unfolding 2(1)
      using 2(2) by (intro ends_bind, (rule ends_weaken[OF ends_any], assumption)?) 
        (intro ends_bind ends_weaken[OF ends_any] ends_ret | simp)+
  qed
  moreover have "ends h (reboot inp) (\<lambda>r es. leaves (length inp) r)" for h inp
    by (cases inp) (auto simp: reboot_def intro!: ends_ret ends_bind ends_delay)
  moreover have "ends h (display_all_settings inp) (\<lambda>r es. leaves (length inp) r)" for h inp
    unfolding display_all_settings_def by (intro ends_bind ends_in32 ends_ret) simp
  moreover have "ends h (dump_eeprom inp) (\<lambda>r es. leaves (length inp) r)" for h inp
  proof -
    have "appends (\<lambda>_. True) eeprom_dump"
      unfolding eeprom_dump_def i2c_defs case_prod_beta by (intro appends_intros, simp_all)
    then show ?thesis unfolding dump_eeprom_def by (intro ends_bind, elim ends_any[THEN ends_weaken]) (intro ends_ret, simp)
  qed
  ultimately show ?thesis by (simp add: entries_ok_def console_entries_def ends_ret)
qed



section \<open>A dialogue no code calls\<close>

lemma ipaddr_backspace: "length buf = 40 \<Longrightarrow> get_ipaddr_line buf 0 (8 # of_char (CHR ''1'') # inp) = Overrun"
  by (simp add: store_def unsigned_minus_1_eq_mask mask_eq_exp_minus_1)

end
