(* ===== verification/System.thy ===== *)
theory System imports Client Startup Board_Stats Console begin

text \<open>
  The firmware as a whole: the start of the board, then the threads of \<open>on_startup\<close> and the client
  threads, which share the PL registers and the I2C bus. A step of the system is one turn of a thread,
  one message of a client, or what the operator types; the steps come in any order. What a turn does
  on the bus is a sequence of events, so what is shown of each event does not depend on turns being
  whole; what does is shown in the section on preemption.
\<close>

declare of_int_sint [simp del] of_int_uint [simp del]

section \<open>State and steps\<close>

text \<open>\<open>on_startup\<close> starts six threads; two of them touch the hardware before their loop.\<close>

datatype thread = Lstats | Brdstats | Dmadata | Gendata | Thermistor | Console_Menu

definition on_startup :: "thread list" where
  "on_startup = [Lstats, Brdstats, Dmadata, Gendata, Thermistor, Console_Menu]"

definition thread_start :: "thread \<Rightarrow> unit io" where
  "thread_start t = (case t of Dmadata \<Rightarrow> dma_arm | Thermistor \<Rightarrow> thermistors_setup | _ \<Rightarrow> ret ())"

record system =
  s_app :: app
  s_dma :: "u32 \<times> adcmsg list"
  s_gen :: gen_msg

definition gen_msg0 :: gen_msg where
  "gen_msg0 = \<lparr>pll_locked = 0, cha_gain = 0, chb_gain = 0, chc_gain = 0, chd_gain = 0, rf_atten = 0, kx = 0, ky = 0,
     bba_xoff = 0, bba_yoff = 0, evr_ts_s_triglat = 0, evr_ts_ns_triglat = 0, trig_eventno = 0, trig_dmacnt = 0,
     fine_trig_dly = 0, coarse_trig_dly = 0, trigtobeam_thresh = 0, trigtobeam_dly = 0, dma_adclen = 0,
     dma_tbtlen = 0, dma_falen = 0, dma_adc_active = 0, dma_tbt_active = 0, dma_fa_active = 0, dma_tx_active = 0\<rparr>"

definition boot_io :: "unit io" where
  "boot_io = do { startup; for_each on_startup thread_start }"

definition boot :: "hw \<Rightarrow> system" where
  "boot h = \<lparr>s_app = \<lparr>ioc_access_count = 0, platform = snd (run_state boot_io (start_world h))\<rparr>,
     s_dma = (0, replicate ADC_DMA_MAX_LEN (four 0 0 0 0)), s_gen = gen_msg0\<rparr>"

text \<open>
  A message of a client is its number and the receive buffer it arrived in; the operator's input comes
  with the content of the dialogue's buffer, fresh from the stack.
\<close>

datatype turn = Dma_Turn | Gen_Turn | Therm_Turn | Board_Turn rat | Stats_Turn nat os_stats
  | Typed "u8 list" "u8 list" | Message u16 nat "u8 list"

definition on_platform :: "'a io \<Rightarrow> system \<Rightarrow> 'a \<times> system" where
  "on_platform m s = (case run_state m (platform (s_app s)) of
     (x, w) \<Rightarrow> (x, s\<lparr>s_app := (s_app s)\<lparr>platform := w\<rparr>\<rparr>))"

text \<open>\<open>None\<close>: something undefined happened, or the board was reset.\<close>

fun system_turn :: "turn \<Rightarrow> system \<Rightarrow> system option" where
  "system_turn Dma_Turn s = (case on_platform (dmadata_turn (s_dma s)) s of
     (r, s') \<Rightarrow> map_option (\<lambda>d. s'\<lparr>s_dma := d\<rparr>) r)"
| "system_turn Gen_Turn s = (case on_platform (gendata_turn (s_gen s)) s of
     (r, s') \<Rightarrow> map_option (\<lambda>g. s'\<lparr>s_gen := g\<rparr>) r)"
| "system_turn Therm_Turn s = Some (snd (on_platform thermistors_turn s))"
| "system_turn (Board_Turn die) s = Some (snd (on_platform (brdstats_turn die) s))"
| "system_turn (Stats_Turn rate st) s = Some (snd (on_platform (lstats_turn rate st) s))"
| "system_turn (Typed buffer inp) s =
    (case on_platform (console_menu (Suc (length inp)) buffer inp) s of
       (r, s') \<Rightarrow> if length buffer = MAX_INPUT_LEN \<and> r = Some Waits then Some s' else None)"
| "system_turn (Message msgid n rxbuf) s = map_option (\<lambda>a. s\<lparr>s_app := a\<rparr>) (client_msg msgid n rxbuf (s_app s))"

fun run_turns :: "turn list \<Rightarrow> system \<Rightarrow> system option" where
  "run_turns [] s = Some s"
| "run_turns (t # ts) s = (case system_turn t s of None \<Rightarrow> None | Some s' \<Rightarrow> run_turns ts s')"

definition bus :: "system \<Rightarrow> event list" where
  "bus s = trace (platform (s_app s))"

section \<open>The I2C bus\<close>

text \<open>
  Two multiplexers stand between the processor and the devices; what was last sent to each selects
  the branches. The EEPROM is reached over one of the branches only, so every transfer with it needs
  that selection.
\<close>

type_synonym mux = "u8 option \<times> u8 option"

abbreviation (input) EEPROM_BRANCH :: mux where "EEPROM_BRANCH \<equiv> (Some 0x40, Some 0)"

fun mux_step :: "mux \<Rightarrow> event \<Rightarrow> mux" where
  "mux_step (m0, m1) (I2cTx a bs st) =
    (if a = I2C_PORTEXP0_ADDR then (Some (hd bs), m1) else if a = I2C_PORTEXP1_ADDR then (m0, Some (hd bs)) else (m0, m1))"
| "mux_step m _ = m"

fun eeprom_ev :: "event \<Rightarrow> bool" where
  "eeprom_ev (I2cTx a bs st) \<longleftrightarrow> a = IIC_EEPROM_ADDR"
| "eeprom_ev (I2cRx a bs st) \<longleftrightarrow> a = IIC_EEPROM_ADDR"
| "eeprom_ev _ \<longleftrightarrow> False"

fun eeprom_reached :: "mux \<Rightarrow> event list \<Rightarrow> bool" where
  "eeprom_reached m [] \<longleftrightarrow> True"
| "eeprom_reached m (e # es) \<longleftrightarrow> (eeprom_ev e \<longrightarrow> m = EEPROM_BRANCH) \<and> eeprom_reached (mux_step m e) es"

lemma eeprom_reached_append [simp]:
  "eeprom_reached m (es @ fs) \<longleftrightarrow> eeprom_reached m es \<and> eeprom_reached (foldl mux_step m es) fs"
  by (induction es arbitrary: m) auto

lemma no_eeprom_reached: "list_all (\<lambda>e. \<not> eeprom_ev e) es \<Longrightarrow> eeprom_reached m es"
  by (induction es arbitrary: m) auto

section \<open>Orderly programs\<close>

text \<open>
  An orderly program writes legally and selects the EEPROM's branch itself before it talks to the
  EEPROM, whatever was selected before. A plain one does not talk to the EEPROM.
\<close>

definition orderly_events :: "event list \<Rightarrow> bool" where
  "orderly_events es \<longleftrightarrow> list_all legal_event es \<and> (\<forall>m. eeprom_reached m es)"

definition orderly :: "'a io \<Rightarrow> bool" where
  "orderly m \<longleftrightarrow> (\<forall>h. ends h m (\<lambda>_. orderly_events))"

definition plain :: "'a io \<Rightarrow> bool" where
  "plain m \<longleftrightarrow> appends (\<lambda>e. legal_event e \<and> \<not> eeprom_ev e) m"

text \<open>Most programs also leave alone the two registers that hold the length of an ADC burst.\<close>

abbreviation (input) BURST :: port where "BURST \<equiv> PL DMA_ADCBURSTLEN_REG"

abbreviation (input) ENGINE :: port where "ENGINE \<equiv> AXI_DMA_ADC S2MM_LEN"

fun dma_ev :: "event \<Rightarrow> bool" where
  "dma_ev (Wr32 p v) \<longleftrightarrow> p = BURST \<or> p = ENGINE"
| "dma_ev _ \<longleftrightarrow> False"

lemma orderly_events_append: "orderly_events es \<Longrightarrow> orderly_events fs \<Longrightarrow> orderly_events (es @ fs)"
  unfolding orderly_events_def eeprom_reached_append list_all_append by blast

lemma orderly_ret: "orderly (ret x)"
  unfolding orderly_def by (auto intro: ends_ret simp: orderly_events_def)

lemma orderly_bind: "orderly m \<Longrightarrow> (\<And>x. orderly (f x)) \<Longrightarrow> orderly (m \<bind> f)"
  unfolding orderly_def
  by (intro allI ends_bind, elim allE, erule ends_weaken, rule ends_weaken, blast, rule orderly_events_append)

lemma orderly_plain: "plain m \<Longrightarrow> orderly m"
  unfolding plain_def orderly_def
  by (intro allI, erule ends_weaken[OF ends_appends])
    (auto simp: orderly_events_def list_all_iff intro!: no_eeprom_reached)

lemma orderly_if: "orderly m \<Longrightarrow> orderly n \<Longrightarrow> orderly (if b then m else n)"
  by simp

section \<open>Every turn is orderly\<close>

abbreviation (input) plain_ev :: "event \<Rightarrow> bool" where
  "plain_ev e \<equiv> legal_event e \<and> \<not> eeprom_ev e"

abbreviation (input) calm_ev :: "event \<Rightarrow> bool" where
  "calm_ev e \<equiv> legal_event e \<and> \<not> eeprom_ev e \<and> \<not> dma_ev e"

abbreviation calm :: "'a io \<Rightarrow> bool" where "calm \<equiv> appends calm_ev"

lemma appends_weaken: "appends P m \<Longrightarrow> (\<And>e. P e \<Longrightarrow> Q e) \<Longrightarrow> appends Q m"
  unfolding appends_def list_all_iff by blast

lemma calm_plain_ev: "calm m \<Longrightarrow> appends plain_ev m"
  by (erule appends_weaken) simp

lemma calm_plain: "calm m \<Longrightarrow> plain m"
  unfolding plain_def by (rule calm_plain_ev)

lemma calm_i2c:
  "a \<noteq> IIC_EEPROM_ADDR \<Longrightarrow> calm (i2c_set_port_expander a p)"
  "a \<noteq> IIC_EEPROM_ADDR \<Longrightarrow> calm (i2c_write bs a)"
  "a \<noteq> IIC_EEPROM_ADDR \<Longrightarrow> calm (i2c_read n a)"
  "a \<noteq> IIC_EEPROM_ADDR \<Longrightarrow> calm (read_i2c_temp a)"
  unfolding i2c_defs read_i2c_temp_def case_prod_beta by (intro appends_intros; simp)+

lemma rail_addr: "fst (the (map_of ltc2991_rails r)) \<noteq> IIC_EEPROM_ADDR"
  by (cases r) (simp_all add: ltc2991_rails_def)

lemma calm_sensors:
  "calm i2c_configure_ltc2991" "calm (i2c_ltc2991_rail r)" "calm (i2c_sfp_get_stats s)"
  "calm i2c_ltc2977_stats" "calm ina226_read_bus_voltage" "calm ina226_read_current"
  "calm ina226_init"
  unfolding i2c_configure_ltc2991_def i2c_ltc2991_rail_def i2c_ltc2991_voltage_def i2c_sfp_get_stats_def i2c_ltc2977_stats_def
    ina226_read_bus_voltage_def ina226_read_current_def ina226_scaled_def ina226_read_reg_def ina226_init_def ina226_write_reg_def
    i2c_defs case_prod_beta
  using rail_addr[of r] by (intro appends_intros; auto)+

lemma appends_map_io: "(\<And>x. x \<in> set xs \<Longrightarrow> appends P (f x)) \<Longrightarrow> appends P (map_io f xs)"
  by (induction xs) (auto intro!: appends_intros)

lemma calm_board: "calm (brdstats_turn die)"
  unfolding brdstats_turn_def read_board_def
  by (intro appends_intros calm_i2c calm_sensors appends_map_io; (rule calm_i2c)?; auto)

lemma calm_thermistors: "calm thermistors_turn" "calm thermistors_setup"
  unfolding thermistors_turn_def thermistors_setup_def read_thermistors_def therm_channel_def therm_byte_def
    setup_thermistors_def case_prod_beta
  by (intro appends_intros; simp add: rdl_map_def)+

lemma calm_stats: "calm (lstats_turn rate st)"
  unfolding lstats_turn_def by (intro appends_intros) simp_all

lemma calm_gendata: "calm (gendata_turn g)"
  unfolding gendata_turn_def Let_def
  by (intro appends_intros; (auto split: option.split intro!: appends_intros)?)

lemma plain_dma_arm: "appends plain_ev dma_arm"
  unfolding dma_arm_def by (intro appends_intros) (simp_all add: rdl_map_def)

lemma calm_serve:
  "calm (send_position x y s)" "calm (send_ADC_dma ss n)" "calm read_gains"
  unfolding send_position_def send_ADC_dma_def read_gains_def Let_def
  by (intro appends_intros; (auto split: option.split intro!: appends_intros)?)+

lemma plain_dmadata: "plain (dmadata_turn d)"
proof -
  have fin: "appends plain_ev finish_trigger"
    unfolding finish_trigger_def by (intro appends_intros plain_dma_arm) (simp_all add: rdl_map_def)
  have "appends plain_ev (serve_trigger b)" for b
    unfolding serve_trigger_def
    by (intro appends_intros calm_plain_ev[OF calm_serve(3)];
        (auto split: option.split intro!: appends_intros calm_plain_ev[OF calm_serve(1)] calm_plain_ev[OF calm_serve(2)] fin)?)
  then show ?thesis
    unfolding plain_def dmadata_turn_def case_prod_beta by (intro appends_intros) simp_all
qed

lemma calm_setters:
  "calm (soft_trig x)" "calm (set_trigsrc x)" "calm (set_atten x)" "calm (set_kxky c x)" "calm (set_bbaoffset c x)"
  "calm (set_gain c x)" "calm (set_dma_trig_dly x)" "calm (set_trigtobeam_thresh i)" "calm (set_eventno x)"
  "calm (adc_idly x)" "calm (adc_mmcm s x)" "calm (adc_spi x)"
  unfolding setter_defs by (intro appends_intros; simp add: rdl_map_def)+

text \<open>All messages but the three lengths.\<close>

lemma dispatch_cases:
  obtains "calm (reg_dispatch a d)" | c where "reg_dispatch a d = set_dmalen c d"
  unfolding reg_dispatch_def
  by (cases "map_of ctl_codes a"; (cases "the (map_of ctl_codes a)")?)
    (simp_all add: calm_setters appends_ret appends_out32 rdl_map_def)

lemma plain_set_dmalen: "appends plain_ev (set_dmalen c d)"
  unfolding set_dmalen_def by (intro appends_intros plain_dma_arm) (simp_all add: rdl_map_def)

lemma plain_dispatch: "appends plain_ev (reg_dispatch a d)"
  by (cases a d rule: dispatch_cases) (simp_all add: calm_plain_ev plain_set_dmalen)

lemma calm_blink: "calm blink"
  unfolding blink_def by (intro appends_intros) (simp_all add: rdl_map_def)

text \<open>The programs that talk to the EEPROM are orderly, and leave the burst length alone.\<close>

definition steady :: "'a io \<Rightarrow> bool" where
  "steady m \<longleftrightarrow> orderly m \<and> appends (\<lambda>e. \<not> dma_ev e) m"

lemma steady_orderly: "steady m \<Longrightarrow> orderly m"
  by (simp add: steady_def)

lemma steady_ret: "steady (ret x)"
  by (simp add: steady_def orderly_ret appends_ret)

lemma steady_bind: "steady m \<Longrightarrow> (\<And>x. steady (f x)) \<Longrightarrow> steady (m \<bind> f)"
  unfolding steady_def by (blast intro: orderly_bind appends_bind)

lemma steady_if: "steady m \<Longrightarrow> steady n \<Longrightarrow> steady (if b then m else n)"
  by simp

lemma steady_calm: "calm m \<Longrightarrow> steady m"
  unfolding steady_def by (intro conjI orderly_plain calm_plain) (assumption, erule appends_weaken, simp)

lemma steady_eeprom:
  "steady (i2c_eeprom_readBytes a n)" "steady (i2c_eeprom_writeBytes a bs)" "steady i2c_get_mac_address"
  unfolding steady_def orderly_def i2c_get_mac_address_def i2c_defs case_prod_beta
  by (intro conjI allI ends_bind ends_tx ends_rx ends_ret appends_intros; simp add: orderly_events_def)+

lemma steady_set_kxky: "steady (set_kxky c v)"
  by (intro steady_calm calm_setters)

lemma steady_set_valid: "steady (set_valid x v)"
  unfolding set_valid_def by (intro steady_if steady_set_kxky steady_ret)

lemma plain_startup: "plain main_clocks" "plain main_regs" "plain ltc2195_init" "plain main_triggers"
  unfolding plain_def main_clocks_def main_regs_def ltc2195_init_def main_triggers_def print_firmware_version_def
    print_timestamps_def prog_ad9510_def read_si569_def read_regs_def prog_si569_def write_lmk61e2_def sleep_s_def case_prod_beta
  by (intro appends_intros calm_plain_ev[OF calm_i2c(1)] calm_plain_ev[OF calm_i2c(2)] calm_plain_ev[OF calm_i2c(3)]
      calm_plain_ev[OF calm_i2c(4)] calm_plain_ev[OF calm_sensors(7)]; simp add: rdl_map_def)+

lemma orderly_startup: "orderly startup"
  unfolding startup_def ReadEEPROMHardwareSettings_def
  by (intro orderly_bind orderly_plain[OF plain_startup(1)] orderly_plain[OF plain_startup(2)] orderly_plain[OF plain_startup(3)]
      orderly_plain[OF plain_startup(4)] steady_orderly[OF steady_eeprom(1)] steady_orderly[OF steady_eeprom(3)]
      steady_orderly[OF steady_set_valid])

lemma orderly_for_each: "(\<And>x. orderly (f x)) \<Longrightarrow> orderly (for_each xs f)"
  by (induction xs) (auto intro: orderly_ret orderly_bind)

lemma orderly_boot: "orderly boot_io"
proof -
  have "orderly (thread_start t)" for t
    using orderly_plain[OF calm_plain[OF calm_thermistors(2)]] orderly_plain[OF plain_dma_arm[folded plain_def]]
    by (cases t) (simp_all add: thread_start_def orderly_ret)
  then show ?thesis unfolding boot_io_def by (intro orderly_bind orderly_startup orderly_for_each)
qed

lemma steady_delay: "steady (vTaskDelay n)"
  by (intro steady_calm) (simp add: appends_vTaskDelay)

lemma steady_kxky:
  assumes "length buf = MAX_INPUT_LEN"
  shows "steady (set_kx_ky_console buf inp)"
proof (cases rule: kxky_cases[OF assms, of inp])
  case 1
  then show ?thesis by (simp add: steady_ret)
next
  case (2 a b rest)
  show ?thesis
    unfolding 2(1) save_kxky_eeprom_def
    by (intro steady_bind steady_set_kxky steady_eeprom steady_ret)
qed

lemma steady_entries:
  assumes "length buf = MAX_INPUT_LEN"
  shows "steady (do_choice (console_entries buf) c inp)"
proof -
  have "steady (display_all_settings i)" for i
    by (intro steady_calm) (unfold display_all_settings_def, intro appends_intros, simp_all)
  moreover have "steady (reboot i)" for i
    by (cases i) (simp_all add: reboot_def steady_ret steady_bind steady_delay)
  moreover have "steady (dump_eeprom i)" for i
    unfolding dump_eeprom_def eeprom_dump_def by (intro steady_bind steady_eeprom steady_ret)
  ultimately show ?thesis
    using steady_kxky[OF assms] unfolding do_choice_def
    by (auto simp: console_entries_def steady_ret split: option.split if_splits)
qed

lemma steady_exec_menu:
  "length buf = MAX_INPUT_LEN \<Longrightarrow> steady (exec_menu k (console_entries buf) inp)"
proof (induction k arbitrary: inp)
  case (Suc k)
  then show ?case
    by (cases inp) (auto intro!: steady_bind steady_delay steady_ret steady_entries split: outcome.split)
qed (simp add: steady_ret)

lemma steady_console: "length buf = MAX_INPUT_LEN \<Longrightarrow> steady (console_menu k buf inp)"
proof (induction k arbitrary: inp)
  case (Suc k)
  then show ?case
    by (auto intro!: steady_bind steady_delay steady_ret steady_exec_menu split: outcome.split option.split)
qed (simp add: steady_ret)

section \<open>Every step keeps the bus in order\<close>

definition orderly_growth :: "world \<Rightarrow> world \<Rightarrow> bool" where
  "orderly_growth w w' \<longleftrightarrow> env w' = env w \<and> (\<exists>es. trace w' = trace w @ es \<and> orderly_events es)"

lemma growth_refl: "orderly_growth w w"
  by (simp add: orderly_growth_def orderly_events_def)

lemma growth_trans: "orderly_growth u v \<Longrightarrow> orderly_growth v w \<Longrightarrow> orderly_growth u w"
  unfolding orderly_growth_def by (metis append_assoc orderly_events_append)

lemma growth_run:
  assumes "orderly m" "run_state m w = (x, w')"
  shows "orderly_growth w w'"
proof -
  from assms(1) have "ends (env w) m (\<lambda>_. orderly_events)" by (simp add: orderly_def)
  then obtain y es where "run_state m w = (y, w\<lparr>trace := trace w @ es\<rparr>)" "orderly_events es"
    by (rule ends_run[where w = w]) simp
  with assms(2) show ?thesis by (auto simp: orderly_growth_def)
qed

lemma growth_orderly: "orderly_growth w w' \<Longrightarrow> orderly_events (trace w) \<Longrightarrow> orderly_events (trace w')"
  by (auto simp: orderly_growth_def orderly_events_append)

text \<open>A step is the run of one program, and a message is two.\<close>

abbreviation world_of :: "system \<Rightarrow> world" where "world_of s \<equiv> platform (s_app s)"

inductive prog_step :: "world \<Rightarrow> world \<Rightarrow> bool" where
  dma: "prog_step w (snd (run_state (dmadata_turn d) w))"
| calm: "list_all calm_ev es \<Longrightarrow> prog_step w (w\<lparr>trace := trace w @ es\<rparr>)"
| typed: "length buf = MAX_INPUT_LEN \<Longrightarrow> prog_step w (snd (run_state (console_menu k buf inp) w))"
| message: "prog_step w (snd (run_state (reg_dispatch a d) w))"

lemma calm_step: "calm m \<Longrightarrow> prog_step w (snd (run_state m w))"
  by (drule ends_appends[where h = "env w"], erule ends_run[where w = w]) (auto intro: prog_step.calm)

lemma on_platform_world: "on_platform m s = (x, s') \<Longrightarrow> world_of s' = snd (run_state m (world_of s))"
  by (auto simp: on_platform_def split: prod.splits)

lemma message_steps:
  assumes "client_msg msgid n buf a = Some a'"
  shows "prog_step\<^sup>*\<^sup>* (platform a) (platform a')"
proof -
  let ?w = "snd (run_state blink (platform a))"
  have 1: "prog_step (platform a) ?w" by (rule calm_step[OF calm_blink])
  show ?thesis
  proof (cases "msgid = 1")
    case True
    with assms obtain m where m: "reg_settings buf = Some m" "platform a' = snd (run_state m ?w)"
      by (auto simp: client_msg_def Let_def split: option.splits)
    then obtain r d where "m = reg_dispatch r d" by (auto simp: reg_settings_def split: option.splits)
    with 1 m(2) show ?thesis by (auto intro: converse_rtranclp_into_rtranclp[OF _ r_into_rtranclp] prog_step.message)
  next
    case False
    with assms 1 show ?thesis by (auto simp: client_msg_def Let_def)
  qed
qed

lemma turn_steps:
  assumes "system_turn t s = Some s'"
  shows "prog_step\<^sup>*\<^sup>* (world_of s) (world_of s')"
proof -
  have run: "prog_step\<^sup>*\<^sup>* (world_of s) (world_of u)" "prog_step\<^sup>*\<^sup>* (world_of s) (world_of (u\<lparr>s_dma := da\<rparr>))"
      "prog_step\<^sup>*\<^sup>* (world_of s) (world_of (u\<lparr>s_gen := g\<rparr>))"
    if "on_platform m s = (x, u)" "prog_step (world_of s) (snd (run_state m (world_of s)))" for m x u da g
    using that(2) by (simp_all add: on_platform_world[OF that(1)])
  show ?thesis
  proof (cases t)
    case Dma_Turn
    with assms show ?thesis by (auto split: prod.splits intro: run prog_step.dma)
  next
    case Gen_Turn
    with assms show ?thesis by (auto split: prod.splits intro: run calm_step[OF calm_gendata])
  next
    case Therm_Turn
    with assms show ?thesis
      by (cases "on_platform thermistors_turn s") (auto intro: run calm_step[OF calm_thermistors(1)])
  next
    case (Board_Turn die)
    with assms show ?thesis
      by (cases "on_platform (brdstats_turn die) s") (auto intro: run calm_step[OF calm_board])
  next
    case (Stats_Turn rate st)
    with assms show ?thesis
      by (cases "on_platform (lstats_turn rate st) s") (auto intro: run calm_step[OF calm_stats])
  next
    case (Typed buf inp)
    with assms show ?thesis by (auto simp del: console_menu.simps split: prod.splits if_splits intro: run prog_step.typed)
  next
    case (Message msgid n buf)
    with assms show ?thesis by (auto intro: message_steps)
  qed
qed

lemma run_turns_steps: "run_turns ts s = Some s' \<Longrightarrow> prog_step\<^sup>*\<^sup>* (world_of s) (world_of s')"
  by (induction ts s rule: run_turns.induct) (auto split: option.splits intro: rtranclp_trans turn_steps)

lemma step_growth: "prog_step w w' \<Longrightarrow> orderly_growth w w'"
proof (induction rule: prog_step.induct)
  case (dma w d)
  show ?case by (rule growth_run[OF orderly_plain[OF plain_dmadata]]) (rule prod.collapse[symmetric])
next
  case (calm es w)
  then show ?case by (auto simp: orderly_growth_def orderly_events_def list_all_iff intro!: exI[of _ es] no_eeprom_reached)
next
  case (typed buf w k inp)
  show ?case by (rule growth_run[OF steady_orderly[OF steady_console[OF typed]]]) (rule prod.collapse[symmetric])
next
  case (message w a d)
  show ?case
    by (rule growth_run[OF orderly_plain[OF plain_dispatch[folded plain_def]]]) (rule prod.collapse[symmetric])
qed

lemma boot_world: "world_of (boot h) = snd (run_state boot_io (start_world h))"
  by (simp add: boot_def)

lemma boot_growth: "orderly_growth (start_world h) (world_of (boot h))"
  unfolding boot_world by (rule growth_run[OF orderly_boot]) (rule prod.collapse[symmetric])

interpretation bus_order: inv_machine "\<lambda>w. \<exists>h. w = world_of (boot h)" prog_step "\<lambda>w. orderly_events (trace w)"
proof unfold_locales
  fix w assume "\<exists>h. w = world_of (boot h)"
  then obtain h where h: "w = world_of (boot h)" by blast
  have "orderly_events (trace (start_world h))" by (simp add: orderly_events_def)
  then show "orderly_events (trace w)" unfolding h by (rule growth_orderly[OF boot_growth])
qed (rule growth_orderly[OF step_growth])

section \<open>The length of an ADC burst\<close>

text \<open>
  What must agree: the burst length the PL samples and the byte count the DMA engine is armed with; and
  the length is one the buffers have room for.
\<close>

definition dma_ok :: "event list \<Rightarrow> bool" where
  "dma_ok tr \<longleftrightarrow> (\<exists>n. last_write tr BURST = Some n \<and> last_write tr ENGINE = Some (s2mm_bytes n)
     \<and> 1000 \<le> uint n \<and> uint n \<le> 1000000)"

definition dma_good :: "world \<Rightarrow> bool" where
  "dma_good w \<longleftrightarrow> (stores (env w) BURST \<longrightarrow> dma_ok (trace w))"

lemma quiet_last_write:
  assumes "list_all (\<lambda>e. \<not> dma_ev e) es" "p = BURST \<or> p = ENGINE"
  shows "last_write (tr @ es) p = last_write tr p"
proof -
  have "(p, v) \<notin> set (ev_writes e)" if "\<not> dma_ev e" for e v
    using that assms(2) by (cases e) auto
  then have "p \<notin> fst ` set (writes es)"
    using assms(1) by (induction es) auto
  then have "map_of (rev (writes es)) p = None" by (simp add: map_of_eq_None_iff)
  then show ?thesis by (simp add: last_write_append)
qed

lemma quiet_dma_ok: "list_all (\<lambda>e. \<not> dma_ev e) es \<Longrightarrow> dma_ok (tr @ es) \<longleftrightarrow> dma_ok tr"
  by (simp add: dma_ok_def quiet_last_write)

lemma quiet_dma_good: "list_all (\<lambda>e. \<not> dma_ev e) es \<Longrightarrow> dma_good (w\<lparr>trace := trace w @ es\<rparr>) \<longleftrightarrow> dma_good w"
  by (simp add: dma_good_def quiet_dma_ok)

definition keeps :: "'a io \<Rightarrow> bool" where
  "keeps m \<longleftrightarrow> (\<forall>w. dma_good w \<longrightarrow> dma_good (snd (run_state m w)))"

lemma keeps_ret: "keeps (ret x)"
  by (simp add: keeps_def)

lemma keeps_bind: "keeps m \<Longrightarrow> (\<And>x. keeps (f x)) \<Longrightarrow> keeps (m \<bind> f)"
  unfolding keeps_def by (simp add: split_beta)

lemma keeps_quiet:
  assumes "appends (\<lambda>e. \<not> dma_ev e) m"
  shows "keeps m"
  unfolding keeps_def
proof (intro allI impI)
  fix w assume g: "dma_good w"
  obtain es where es: "trace (snd (run_state m w)) = trace w @ es" "list_all (\<lambda>e. \<not> dma_ev e) es"
    using assms by (rule appends_trace)
  from g show "dma_good (snd (run_state m w))"
    by (simp add: dma_good_def appends_env[OF assms] es(1) quiet_dma_ok[OF es(2)])
qed

lemma keeps_calm: "calm m \<Longrightarrow> keeps m"
  by (rule keeps_quiet, erule appends_weaken) simp

lemma keeps_if: "keeps m \<Longrightarrow> keeps n \<Longrightarrow> keeps (if b then m else n)"
  by simp

lemma keeps_option: "keeps m \<Longrightarrow> (\<And>x. keeps (f x)) \<Longrightarrow> keeps (case r of None \<Rightarrow> m | Some x \<Rightarrow> f x)"
  by (cases r) simp_all

lemma arm_last_write:
  assumes "stores (env w) BURST" "last_write (trace w) BURST = Some n"
  shows "last_write (trace (snd (run_state dma_arm w))) BURST = Some n"
    "last_write (trace (snd (run_state dma_arm w))) ENGINE = Some (s2mm_bytes n)"
    "env (snd (run_state dma_arm w)) = env w"
  using assms by (simp_all add: stores_def io_simps Let_def log_ev_def last_write_append)

lemma arm_dma_good:
  assumes "last_write (trace w) BURST = Some n" "1000 \<le> uint n" "uint n \<le> 1000000"
  shows "dma_good (snd (run_state dma_arm w))"
  unfolding dma_good_def dma_ok_def appends_env[OF plain_dma_arm]
  using arm_last_write[OF _ assms(1)] assms(2,3) by blast

lemma keeps_dma_arm: "keeps dma_arm"
  unfolding keeps_def
proof (intro allI impI)
  fix w assume g: "dma_good w"
  have e: "env (snd (run_state dma_arm w)) = env w" by (rule appends_env[OF plain_dma_arm])
  from g show "dma_good (snd (run_state dma_arm w))"
    unfolding dma_good_def dma_ok_def e using arm_last_write[of w] by metis
qed

lemma keeps_dmadata: "keeps (dmadata_turn d)"
proof -
  have prims: "keeps (Xil_In32 p)" "keeps read_ddr" "keeps (vTaskDelay n)" for p n
    by (intro keeps_calm appends_intros; simp)+
  have fin: "keeps finish_trigger"
    unfolding finish_trigger_def
    by (intro keeps_bind keeps_dma_arm keeps_calm[OF appends_out32]) (simp_all add: rdl_map_def)
  have "keeps (serve_trigger b)" for b
    unfolding serve_trigger_def case_prod_beta
    by (intro keeps_bind keeps_option keeps_if keeps_ret prims fin keeps_calm[OF calm_serve(1)]
        keeps_calm[OF calm_serve(2)] keeps_calm[OF calm_serve(3)])
  then show ?thesis
    unfolding dmadata_turn_def case_prod_beta by (intro keeps_bind keeps_if keeps_ret prims)
qed

text \<open>A new length is clamped, written to the PL and at once given to the engine.\<close>

lemma keeps_set_dmalen: "keeps (set_dmalen c d)"
  unfolding keeps_def
proof (intro allI impI)
  fix w assume g: "dma_good w"
  have run: "snd (run_state (set_dmalen c d) w) = snd (run_state dma_arm (w\<lparr>trace := trace w @ es\<rparr>))"
    if "es = [Wr32 (PL DMA_ADCENABLE_REG) 0, Wr32 (PL DMA_TBTENABLE_REG) 0, Wr32 (PL DMA_FAENABLE_REG) 0] @
      (if c = ADC then [Wr32 BURST (clamp_u32 d 1000 1000000)]
       else if c = TBT then [Wr32 (PL DMA_TBTBURSTLEN_REG) (clamp_u32 d 1000 1000000)]
       else if c = FA then [Wr32 (PL DMA_FABURSTLEN_REG) (clamp_u32 d 1000 100000)] else [])" for es
    using that by (simp add: run_set_dmalen Let_def)
  show "dma_good (snd (run_state (set_dmalen c d) w))"
  proof (cases "c = ADC")
    case True
    let ?v = "w\<lparr>trace := trace w @ [Wr32 (PL DMA_ADCENABLE_REG) 0, Wr32 (PL DMA_TBTENABLE_REG) 0,
      Wr32 (PL DMA_FAENABLE_REG) 0, Wr32 BURST (clamp_u32 d 1000 1000000)]\<rparr>"
    have "last_write (trace ?v) BURST = Some (clamp_u32 d 1000 1000000)" by (simp add: last_write_append)
    moreover have "1000 \<le> uint (clamp_u32 d 1000 1000000)" "uint (clamp_u32 d 1000 1000000) \<le> 1000000"
      using clamp_bounds[of 1000 1000000 "sint d"] by (simp_all add: uint_clamp_u32)
    moreover have "snd (run_state (set_dmalen c d) w) = snd (run_state dma_arm ?v)"
      using True by (subst run[OF refl]) simp
    ultimately show ?thesis by (simp only: arm_dma_good)
  next
    case False
    let ?es = "[Wr32 (PL DMA_ADCENABLE_REG) 0, Wr32 (PL DMA_TBTENABLE_REG) 0, Wr32 (PL DMA_FAENABLE_REG) 0] @
      (if c = TBT then [Wr32 (PL DMA_TBTBURSTLEN_REG) (clamp_u32 d 1000 1000000)]
       else if c = FA then [Wr32 (PL DMA_FABURSTLEN_REG) (clamp_u32 d 1000 100000)] else [])"
    have "list_all (\<lambda>e. \<not> dma_ev e) ?es" by simp
    then have "dma_good (w\<lparr>trace := trace w @ ?es\<rparr>)"
      using g quiet_dma_good by blast
    then have "dma_good (snd (run_state dma_arm (w\<lparr>trace := trace w @ ?es\<rparr>)))"
      using keeps_dma_arm unfolding keeps_def by blast
    with False show ?thesis by (simp only: run[of ?es] if_False)
  qed
qed

lemma step_dma_good: "prog_step w w' \<Longrightarrow> dma_good w \<Longrightarrow> dma_good w'"
proof (induction rule: prog_step.induct)
  case (dma w d)
  then show ?case using keeps_dmadata[of d] by (simp add: keeps_def)
next
  case (calm es w)
  then have "list_all (\<lambda>e. \<not> dma_ev e) es" by (auto simp: list_all_iff)
  with calm(2) show ?case by (simp add: quiet_dma_good)
next
  case (typed buf w k inp)
  then show ?case using keeps_quiet[of "console_menu k buf inp"] steady_console[OF typed(1), of k inp]
    by (simp add: keeps_def steady_def)
next
  case (message w a d)
  have "keeps (reg_dispatch a d)"
    by (cases a d rule: dispatch_cases) (simp_all add: keeps_calm keeps_set_dmalen)
  with message show ?case by (simp add: keeps_def)
qed

lemma boot_dma_good: "dma_good (world_of (boot h))"
proof -
  let ?w = "snd (run_state startup (start_world h))"
  have "last_write (trace ?w) BURST = Some 10000"
    using startup_last_write[of DMA_ADCBURSTLEN_REG h] by (simp add: startup_regs_def)
  then have "dma_good (snd (run_state dma_arm ?w))"
    by (rule arm_dma_good) simp_all
  moreover have "world_of (boot h) = snd (run_state thermistors_setup (snd (run_state dma_arm ?w)))"
    by (simp add: boot_world boot_io_def on_startup_def thread_start_def split_beta)
  ultimately show ?thesis
    using keeps_calm[OF calm_thermistors(2)] by (simp add: keeps_def)
qed

interpretation dma_length: inv_machine "\<lambda>w. \<exists>h. w = world_of (boot h)" prog_step dma_good
  by unfold_locales (auto simp: boot_dma_good dest: step_dma_good)

section \<open>Preemption\<close>

text \<open>
  The bus has no lock. The board thread has a higher priority than the console, and selects branches
  of its own; where the last of them is, is all that counts here.
\<close>

definition last_branch :: "u8 \<Rightarrow> 'a io \<Rightarrow> bool" where
  "last_branch b m \<longleftrightarrow> (\<forall>h. ends h m (\<lambda>_ es. \<forall>x. snd (foldl mux_step x es) = Some b))"

lemma last_branch_prefix:
  assumes "appends P m" "\<And>x. last_branch b (f x)"
  shows "last_branch b (m \<bind> f)"
  unfolding last_branch_def
proof (intro allI ends_bind)
  fix h
  have "ends h (f x) (\<lambda>_ fs. \<forall>y. snd (foldl mux_step y (es @ fs)) = Some b)" for x es
    by (rule ends_weaken[OF assms(2)[unfolded last_branch_def, rule_format]]) (simp only: foldl_append simp_thms)
  then show "ends h m (\<lambda>x es. ends h (f x) (\<lambda>_ fs. \<forall>y. snd (foldl mux_step y (es @ fs)) = Some b))"
    by (intro ends_weaken[OF ends_appends[OF assms(1)]])
qed

lemma mux_keeps:
  "list_all (\<lambda>e. \<forall>bs st. e \<noteq> I2cTx I2C_PORTEXP1_ADDR bs st) es \<Longrightarrow> snd (foldl mux_step x es) = snd x"
proof (induction es arbitrary: x)
  case (Cons e es)
  then show ?case by (cases "(x, e)" rule: mux_step.cases) auto
qed simp

lemma last_branch_select:
  assumes "\<And>x. appends (\<lambda>e. \<forall>bs st. e \<noteq> I2cTx I2C_PORTEXP1_ADDR bs st) (f x)"
  shows "last_branch b (i2c_set_port_expander I2C_PORTEXP1_ADDR b \<bind> f)"
  unfolding last_branch_def i2c_set_port_expander_def
  by (intro allI ends_bind ends_tx ends_ret ends_weaken[OF ends_appends[OF assms]])
    (simp add: mux_keeps split_paired_all del: split_paired_All)

lemma board_last_branch: "last_branch 8 (brdstats_turn die)"
proof -
  let ?any = "\<lambda>_ :: event. True"
  have any: "appends ?any (i2c_set_port_expander a p)" "appends ?any (read_i2c_temp a)" "appends ?any (vTaskDelay n)"
    "appends ?any (Xil_In32 q)" "appends ?any (map_io read_i2c_temp as)" "appends ?any (map_io i2c_ltc2991_rail rs)"
    "appends ?any (map_io i2c_sfp_get_stats ns)" for a p n q as rs ns
    unfolding i2c_defs read_i2c_temp_def case_prod_beta
    by (intro appends_intros appends_map_io appends_weaken[OF calm_sensors(2)] appends_weaken[OF calm_sensors(3)]; simp)+
  have sens: "appends ?any i2c_configure_ltc2991" "appends ?any ina226_read_bus_voltage" "appends ?any ina226_read_current"
    using calm_sensors by (auto elim!: appends_weaken)
  have power: "last_branch 8 (i2c_ltc2977_stats \<bind> f)"
    if "\<And>x. appends (\<lambda>e. \<forall>bs st. e \<noteq> I2cTx I2C_PORTEXP1_ADDR bs st) (f x)" for f :: "rat \<Rightarrow> 'z io"
    unfolding i2c_ltc2977_stats_def bind_assoc case_prod_beta
    by (intro last_branch_prefix[OF any(1)] last_branch_select appends_intros that; simp)
  show ?thesis
    unfolding brdstats_turn_def read_board_def bind_assoc
    by (intro last_branch_prefix[OF any(1)] last_branch_prefix[OF any(3)] last_branch_prefix[OF any(4)]
        last_branch_prefix[OF any(5)] last_branch_prefix[OF any(6)] last_branch_prefix[OF any(7)]
        last_branch_prefix[OF sens(1)] last_branch_prefix[OF sens(2)] last_branch_prefix[OF sens(3)] power appends_intros) simp
qed

section \<open>Reached states\<close>

lemma steps_growth: "prog_step\<^sup>*\<^sup>* w w' \<Longrightarrow> orderly_growth w w'"
  by (induction rule: rtranclp_induct) (auto intro: growth_refl growth_trans step_growth)

lemma run_turns_env: "run_turns ts (boot h) = Some s \<Longrightarrow> env (world_of s) = h"
  using steps_growth[OF run_turns_steps] boot_growth[of h] by (fastforce simp: orderly_growth_def)

lemma run_turns_dma_ok:
  assumes "run_turns ts (boot h) = Some s" "stores h BURST"
  shows "dma_ok (bus s)"
proof -
  have "dma_good (world_of s)"
    by (rule dma_length.inv_reachable[OF _ run_turns_steps[OF assms(1)]]) blast
  then show ?thesis using assms by (simp add: dma_good_def bus_def run_turns_env)
qed

lemma s2mm_bytes_int:
  assumes "uint n \<le> 1000000"
  shows "uint (s2mm_bytes n) = 8 * (uint n + 16)"
proof -
  have int: "int (unat w) = uint w" for w :: u32 by (simp add: unat_eq_nat_uint del: nat_uint_eq)
  then have "unat n \<le> 1000000" using assms by (metis nat_int nat_mono nat_numeral)
  from arg_cong[OF s2mm_bytes_unat[OF this], of int] show ?thesis by (simp only: int of_nat_mult of_nat_add of_nat_numeral)
qed

text \<open>Steps that are always possible.\<close>

fun possible :: "turn \<Rightarrow> bool" where
  "possible (Message i n buf) \<longleftrightarrow> 8 \<le> length buf"
| "possible t \<longleftrightarrow> t = Therm_Turn \<or> (\<exists>die. t = Board_Turn die) \<or> (\<exists>rate st. t = Stats_Turn rate st)"

lemma possible_turns: "list_all possible ts \<Longrightarrow> \<exists>s'. run_turns ts s = Some s'"
proof (induction ts arbitrary: s)
  case (Cons t ts)
  then have "\<exists>u. system_turn t s = Some u"
    using client_msg_Some by (cases t) auto
  with Cons show ?case by auto
qed simp

section \<open>Properties\<close>

text \<open>
  Property C8 (safety): in every state the firmware reaches from its start, on any hardware, by turns
  of its threads, messages of its clients and input of the operator in any order, every bus write was to
  an aligned register software may write, and every transfer with the EEPROM was made while its branch
  was selected.
\<close>

theorem system_bus_orderly:
  assumes "run_turns ts (boot h) = Some s"
  shows "list_all legal_event (bus s) \<and> (\<forall>m. eeprom_reached m (bus s))"
proof -
  have "orderly_events (trace (world_of s))"
    by (rule bus_order.inv_reachable[OF _ run_turns_steps[OF assms]]) blast
  then show ?thesis by (simp add: bus_def orderly_events_def)
qed

theorem system_bus_orderly_witness:
  "\<exists>s. run_turns [Therm_Turn, Message 1 8 (be32 132 @ be32 20), Board_Turn 41] (boot storing_hw) = Some s
    \<and> list_all legal_event (bus s) \<and> (\<forall>m. eeprom_reached m (bus s))"
proof -
  have "list_all possible [Therm_Turn, Message 1 8 (be32 132 @ be32 20), Board_Turn 41]" by simp
  from possible_turns[OF this] obtain s where s: "run_turns [Therm_Turn, Message 1 8 (be32 132 @ be32 20), Board_Turn 41] (boot storing_hw) = Some s" ..
  from s system_bus_orderly[OF s] show ?thesis by blast
qed

text \<open>
  Property C7 (invariant): if the burst length register keeps what is written to it, then in every such
  state the DMA engine is armed for exactly the burst the PL samples, of 1000 to a million samples and
  sixteen words of header, which ends before the next buffer starts.
\<close>

theorem adc_length_agrees:
  assumes "run_turns ts (boot h) = Some s" "stores h (PL DMA_ADCBURSTLEN_REG)"
  shows "\<exists>n len. last_write (bus s) (PL DMA_ADCBURSTLEN_REG) = Some n \<and> 1000 \<le> uint n \<and> uint n \<le> 1000000
    \<and> last_write (bus s) (AXI_DMA_ADC S2MM_LEN) = Some len \<and> uint len = 8 * (uint n + 16)
    \<and> uint ADC_DMA_DATA + uint len \<le> uint TBT_DMA_DATA"
  using run_turns_dma_ok[OF assms] by (auto simp: dma_ok_def s2mm_bytes_int)

theorem adc_length_agrees_witness:
  "\<exists>s n len. run_turns [Message 1 8 (be32 56 @ be32 2000000), Therm_Turn] (boot storing_hw) = Some s
    \<and> last_write (bus s) (PL DMA_ADCBURSTLEN_REG) = Some n \<and> 1000 \<le> uint n \<and> uint n \<le> 1000000
    \<and> last_write (bus s) (AXI_DMA_ADC S2MM_LEN) = Some len \<and> uint len = 8 * (uint n + 16)"
proof -
  have "list_all possible [Message 1 8 (be32 56 @ be32 2000000), Therm_Turn]" by simp
  from possible_turns[OF this] obtain s where s: "run_turns [Message 1 8 (be32 56 @ be32 2000000), Therm_Turn] (boot storing_hw) = Some s" ..
  from s adc_length_agrees[OF s] show ?thesis by auto
qed

text \<open>
  Property C22 (error): the selection and the transfer are separate. When the board thread, whose priority
  is higher, runs its turn between the two, the scale factors go to whatever answers the EEPROM's address
  on the power supplies' branch, while alone the same program reaches the EEPROM.
\<close>

theorem eeprom_write_misdirected:
  "orderly (save_kxky_eeprom a b) \<and>
   (\<exists>(select :: unit io) (xfer :: unit io) pre bs st. save_kxky_eeprom a b = do { select; xfer }
     \<and> events_of (do { select; brdstats_turn die; xfer }) w = pre @ [I2cTx IIC_EEPROM_ADDR (EEPROM_KX_ADDR # bs) st]
     \<and> (\<forall>m. snd (foldl mux_step m pre) = Some 8 \<and> foldl mux_step m pre \<noteq> EEPROM_BRANCH))"
proof -
  define select where "select = do { i2c_set_port_expander I2C_PORTEXP0_ADDR 0x40; i2c_set_port_expander I2C_PORTEXP1_ADDR 0 }"
  obtain bs where bs: "save_kxky_eeprom a b = do { select; i2c_write (EEPROM_KX_ADDR # bs) IIC_EEPROM_ADDR; ret () }"
    by (simp add: save_kxky_eeprom_def i2c_eeprom_writeBytes_def select_def)
  let ?xfer = "do { i2c_write (EEPROM_KX_ADDR # bs) IIC_EEPROM_ADDR; ret () }"
  have "appends (\<lambda>_. True) select"
    unfolding select_def i2c_defs by (intro appends_intros; simp)
  then have "last_branch 8 (do { select; brdstats_turn die })"
    by (intro last_branch_prefix[of "\<lambda>_. True"] board_last_branch)
  then have board: "ends (env w) (do { select; brdstats_turn die }) (\<lambda>_ es. \<forall>m. snd (foldl mux_step m es) = Some 8)"
    by (simp add: last_branch_def)
  have "ends (env w) (do { select; brdstats_turn die; ?xfer })
      (\<lambda>_ es. \<exists>pre st. es = pre @ [I2cTx IIC_EEPROM_ADDR (EEPROM_KX_ADDR # bs) st] \<and> (\<forall>m. snd (foldl mux_step m pre) = Some 8))"
  proof -
    have "ends (env w) (do { select; brdstats_turn die } \<bind> (\<lambda>_. ?xfer))
      (\<lambda>_ es. \<exists>pre st. es = pre @ [I2cTx IIC_EEPROM_ADDR (EEPROM_KX_ADDR # bs) st] \<and> (\<forall>m. snd (foldl mux_step m pre) = Some 8))"
      by (rule ends_bind, rule ends_weaken[OF board], unfold i2c_defs, intro ends_bind ends_tx ends_ret) auto
    then show ?thesis by simp
  qed
  from ends_events[OF this] obtain pre st where
    "events_of (do { select; brdstats_turn die; ?xfer }) w = pre @ [I2cTx IIC_EEPROM_ADDR (EEPROM_KX_ADDR # bs) st]"
    "\<And>m. snd (foldl mux_step m pre) = Some 8" by blast
  moreover have "foldl mux_step m pre \<noteq> EEPROM_BRANCH" for m
    using \<open>\<And>m. snd (foldl mux_step m pre) = Some 8\<close>[of m] by (cases "foldl mux_step m pre") auto
  moreover have "orderly (save_kxky_eeprom a b)"
    by (simp add: save_kxky_eeprom_def steady_orderly steady_eeprom)
  ultimately show ?thesis using bs by blast
qed

text \<open>
  Property C23 (error): arming reads the length and gives it to the engine in two steps, and no lock joins
  them. When in any reached state a client's new length is set between the two, the PL samples the new
  length while the engine is armed for the old one: the agreement of the two, which whole turns keep, is lost.
\<close>

theorem arm_length_race:
  assumes "run_turns ts (boot h) = Some s" "stores h (PL DMA_ADCBURSTLEN_REG)"
    and "last_write (bus s) (PL DMA_ADCBURSTLEN_REG) = Some n" "n \<noteq> clamp_u32 d 1000 1000000"
  shows "\<exists>rest. dma_arm = do { adclen \<leftarrow> Xil_In32 (PL DMA_ADCBURSTLEN_REG); rest adclen } \<and>
    (let w = snd (run_state (do { adclen \<leftarrow> Xil_In32 (PL DMA_ADCBURSTLEN_REG); set_dmalen ADC d; rest adclen }) (world_of s));
         m = clamp_u32 d 1000 1000000
     in last_write (trace w) (PL DMA_ADCBURSTLEN_REG) = Some m
        \<and> last_write (trace w) (AXI_DMA_ADC S2MM_LEN) = Some (s2mm_bytes n) \<and> s2mm_bytes n \<noteq> s2mm_bytes m)"
proof -
  have n: "uint n \<le> 1000000"
    using run_turns_dma_ok[OF assms(1,2)] assms(3) by (auto simp: dma_ok_def)
  have m: "uint (clamp_u32 d 1000 1000000) \<le> 1000000"
    using clamp_bounds[of 1000 1000000 "sint d"] by (simp add: uint_clamp_u32)
  have "uint (s2mm_bytes n) \<noteq> uint (s2mm_bytes (clamp_u32 d 1000 1000000))"
    unfolding s2mm_bytes_int[OF n] s2mm_bytes_int[OF m] using assms(4) by (simp add: word_uint_eq_iff)
  then have differ: "s2mm_bytes n \<noteq> s2mm_bytes (clamp_u32 d 1000 1000000)" by metis
  have read: "hw_in32 (env (world_of s)) (trace (world_of s)) (PL DMA_ADCBURSTLEN_REG) = n"
    using assms(2,3) run_turns_env[OF assms(1)] by (simp add: stores_def bus_def)
  show ?thesis unfolding Let_def
    by (intro exI conjI, rule dma_arm_def) (simp_all add: differ io_simps read Let_def log_ev_def last_write_append)
qed

theorem arm_length_race_witness:
  "\<exists>s n d (rest :: u32 \<Rightarrow> unit io). run_turns [Message 1 8 (be32 56 @ be32 2000), Therm_Turn] (boot storing_hw) = Some s
    \<and> last_write (bus s) (PL DMA_ADCBURSTLEN_REG) = Some n \<and> n \<noteq> clamp_u32 d 1000 1000000
    \<and> last_write (trace (snd (run_state (do { adclen \<leftarrow> Xil_In32 (PL DMA_ADCBURSTLEN_REG); set_dmalen ADC d; rest adclen })
        (world_of s)))) (AXI_DMA_ADC S2MM_LEN) = Some (s2mm_bytes n)"
proof -
  have "list_all possible [Message 1 8 (be32 56 @ be32 2000), Therm_Turn]" by simp
  from possible_turns[OF this] obtain s where
    s: "run_turns [Message 1 8 (be32 56 @ be32 2000), Therm_Turn] (boot storing_hw) = Some s" ..
  have st: "stores storing_hw (PL DMA_ADCBURSTLEN_REG)" by simp
  obtain n where n: "last_write (bus s) (PL DMA_ADCBURSTLEN_REG) = Some n"
    using run_turns_dma_ok[OF s st] by (auto simp: dma_ok_def)
  have "clamp_u32 1500 1000 1000000 \<noteq> clamp_u32 1600 1000 1000000"
    by (simp add: clamp_u32_def clamp_def)
  then obtain d where "n \<noteq> clamp_u32 d 1000 1000000" by metis
  with arm_length_race[OF s st n this] obtain rest :: "u32 \<Rightarrow> unit io" where
    r: "last_write (trace (snd (run_state (do { adclen \<leftarrow> Xil_In32 (PL DMA_ADCBURSTLEN_REG); set_dmalen ADC d; rest adclen })
        (world_of s)))) (AXI_DMA_ADC S2MM_LEN) = Some (s2mm_bytes n)" unfolding Let_def by blast
  show ?thesis
    by (rule exI[of _ s], rule exI[of _ n], rule exI[of _ d], rule exI[of _ rest], intro conjI s n r) fact
qed

end
