(* ===== verification/Spec2Isabelle.thy ===== *)
theory Spec2Isabelle imports Client Listener Remote_Config Startup Dma_Data Board_Stats Console System begin

text \<open>
  The firmware of the zuBPM, a beam position monitor on a Zynq UltraScale+ (\<^verbatim>\<open>src/sw/src\<close>): C on one
  Cortex-A53 under FreeRTOS and lwIP, beside programmable logic (PL) that samples the four channels.

  The parts. \<^verbatim>\<open>main.c\<close> sets up the chips and the PL and starts the main thread, which reads \<^verbatim>\<open>NET.CNF\<close> from
  the SD card, configures the network and then accepts clients (\<^verbatim>\<open>listener.c\<close>). A client sends register
  messages (\<^verbatim>\<open>pscmsg.c\<close>, \<^verbatim>\<open>control.c\<close>); six threads (\<^verbatim>\<open>lstats.c\<close>, \<^verbatim>\<open>brdstats.c\<close>, \<^verbatim>\<open>dmadata.c\<close>, \<^verbatim>\<open>gendata.c\<close>,
  \<^verbatim>\<open>thermistors.c\<close>, \<^verbatim>\<open>console.c\<close>) read the hardware and broadcast to all clients or talk to the operator;
  a TFTP server gives access to the SD card and a discovery responder answers on UDP. The threads share
  the PL registers, the I2C bus with its multiplexers (\<^verbatim>\<open>i2c_devices.c\<close>), and the table of clients.

  How it is modelled. Code that touches the hardware is a program of type \<open>'a io\<close> (Platform), a state
  transformer on a world: the trace of all accesses so far, and the hardware, which answers each access
  from that trace and is otherwise unknown. Code on buffers works on lists of bytes, and what C leaves
  undefined (an access outside a buffer, a conversion that does not fit) is the value \<open>None\<close>, \<open>Overrun\<close>
  or \<open>Undefined\<close>. Words keep their width. Floats are exact rationals rounded after every operation
  (C_Float). Calls of lwIP, FatFs and FreeRTOS are parameters, with what the code relies on as named
  hypotheses: \<open>recv_ok\<close>, \<open>recv_live\<close>, \<open>recv_eof\<close>, \<open>send_ok\<close> for a socket, \<open>fatfs_ok\<close>, \<open>sd_ok\<close>, \<open>gets_ok\<close>
  and \<open>mount_ok\<close> for the card, \<open>pbufs_ok\<close> and \<open>alloc_ok\<close> for lwIP's buffers, \<open>eeprom_ok\<close> for the EEPROM,
  \<open>stores\<close> for a register that keeps what is written to it.

  The theories, from the bottom up.
  Prelude: byte order, bounded reads, the interfaces \<open>codec\<close>, \<open>prefix_code\<close> and \<open>inv_machine\<close>.
  Platform: ports and address map (\<^verbatim>\<open>pl_regs.h\<close>, compared with the RDL), events, the primitives
  (\<open>Xil_Out32\<close>, \<open>vTaskDelay\<close>, \<open>XIicPs_MasterSendPolled\<close>, ...), and the two ways to reason about a program:
  \<open>appends\<close> (what every event satisfies) and \<open>ends\<close> (what result and events satisfy together).
  C_Float: \<open>float\<close> and \<open>double\<close>, with the interface \<open>rounding\<close>.
  Dma_Arm, Control: \<open>dma_arm\<close>; the setters of \<^verbatim>\<open>control.c\<close> and \<open>reg_settings\<close>, which refines the table
  \<open>dispatch_spec\<close> of the registers each message leaves changed.
  Psc_Msg, Client, Listener: the framing of \<^verbatim>\<open>pscmsg.c\<close> over sockets that cut the stream anywhere; the
  receive loop of \<open>handle_client\<close> with \<open>client_msg\<close>; the client table and the interleaving of accept loop,
  client threads and broadcasts (\<open>sys_next\<close>), with the invariants of slots and descriptors.
  Tftp_Handler, Tftp_Server, Tftp_Transfer: the callbacks on the card, the datagram handler and its timer
  as a machine (\<open>tftp_next\<close>), and whole transfers over the interface \<open>served_files\<close>, with losses.
  Device_Init, I2c_Devices, Startup: the tables for \<^verbatim>\<open>ad9510.c\<close>, \<^verbatim>\<open>ltc2195_init.c\<close>, \<^verbatim>\<open>ltc2986.c\<close>; the I2C
  devices and the EEPROM; \<open>main\<close> up to the scheduler and the registers it leaves set.
  Position, Dma_Data, Telemetry, Board_Stats: what is computed from the samples of a trigger, with its
  bounds; the threads that read and send, and the layout of every message.
  Netconf, Sdcard, Network, Console: \<open>sdcard_netconf\<close> as an interpreter of lines in their buffer, refined to
  the words of the lines; the EEPROM files; \<open>realmain\<close>, \<open>net_setup\<close>, discovery and the DHCP timers; the console's line reader,
  dialogues and menu.
  Remote_Config: TFTP server, card and start-up together, an uploaded \<^verbatim>\<open>NET.CNF\<close> and the next start.
  System: all of it together. \<open>boot\<close>, and \<open>run_turns\<close>, any sequence of turns of the threads, messages and
  typed input; invariants of the bus and of the DMA length; what goes wrong when a turn is not whole, on
  the I2C bus and in arming the DMA engine.
  This theory: properties from a client's message to the telemetry.

  Loops and bounds. Loops over data end by a measure on what is left (\<open>psc_sendall\<close>, \<open>psc_recvall\<close>,
  \<open>uart_read_line\<close>). \<open>client_loop\<close> may run for ever and is a \<open>partial_function\<close>; that it ends when the
  peer closes is part of \<open>client_loop_delivers\<close>. \<open>sdcard_netconf\<close> has fuel, one unit per line, and more
  than the number of lines is enough (\<open>netconf_applied\<close>); \<open>exec_menu\<close> and \<open>console_menu\<close> have fuel for
  the keys handled, and more than the length of the input is enough (\<open>console_keeps_listening\<close>). The
  threads never end: \<open>dmadata_turns n\<close> is their first \<open>n\<close> turns and \<open>sa_wait n\<close> the first \<open>n\<close> polls of a
  wait that has no limit in the code. In System a turn is one pass of a thread's loop, run whole; between
  whole turns any order is allowed. For the server of \<^verbatim>\<open>listener.c\<close> the steps are finer: the stretches
  between two points where the code locks or waits.

  Not modelled. What is printed, and code that only prints (\<open>show_ip_info\<close>). \<open>init_i2c\<close> and the start of the
  network stack, which are calls of libraries only; of \<open>init_xilpm\<close>, \<open>init_sysmon\<close>, \<open>psc_run\<close> and \<open>tftp_init\<close> the
  result is modelled over the results of the library calls, which are parameters. Socket options. The
  \<open>sscanf\<close> of \<open>menu_get_ipaddr\<close>, which nothing calls. The delays of the loops that poll the UART. The
  exponent range of floats, which no value of this code leaves, and contraction of a product and a sum
  into one rounding, which the compiler might do. Caches: the DMA buffer is what the CPU sees after it invalidates its cache. What the PL itself does.
\<close>

section \<open>From the client and back\<close>


text \<open>An attenuation of 20 dB, then one of 7 dB, then a scale factor: 7 dB are reported.\<close>

definition example_hw :: hw where
  "example_hw = storing_hw\<lparr>hw_in32 := (\<lambda>tr p. if p = PL TRIGTOBEAM_DLY_REG then 0 else hw_in32 storing_hw tr p)\<rparr>"

definition example_conn :: "u8 list conn" where
  "example_conn = \<lparr>c_sock = frame (1, be32 132 @ be32 20) @ frame (1, be32 132 @ be32 7) @ frame (1, be32 144 @ be32 9),
     c_rxbuf = fresh_rxbuf, c_app = \<lparr>ioc_access_count = 0, platform = start_world example_hw\<rparr>\<rparr>"


end
